theory Spec2Isabelle
  imports Main "HOL-Library.Sublist" "HOL-Library.Multiset"
begin

section \<open>Data model\<close>

text \<open>
  The dashboard has two components over one hosted backend: \<open>PatientList\<close> (the caller
  ranking engine) and \<open>PatientDetails\<close> (the call detail reconciler). Rows arrive from the
  backend as plain objects. Timestamps are the strings the backend sends: the details
  component only ever compares them with \<open>===\<close>, the list component parses them with
  \<open>new Date(s).getTime()\<close>.
\<close>

datatype UrgencyLevel = LOW | MEDIUM | IMMINENT

text \<open>
  A \<open>Call\<close> row. Only the identity and the timestamp are read by the functions below; the
  remaining columns (duration, source, urgency level, transcript, summary, scores, flags)
  travel in the extension slot of the record, so every function is stated for
  \<open>'a call_scheme\<close>.
\<close>

record call =
  call_id :: string
  call_timestamp :: string

text \<open>
  A backend reply \<open>{ data, error }\<close>: the client library reports a failed query as a
  value with \<open>error\<close> set (its message is kept here) and \<open>data\<close> null; it does not throw.
\<close>

datatype 'a response = Response (data: "'a option") (error: "string option")

section \<open>PatientDetails: the call detail reconciler\<close>

text \<open>The component's \<open>useState\<close> cells.\<close>

record 'a details_state =
  calls :: "'a call_scheme list"
  isLoading :: bool
  errorMessage :: "string option"
  selectedCall :: "'a call_scheme option"

text \<open>
  The reducer of \<open>callsData?.reduce((acc, current) => ..., [])\<close>: \<open>current\<close> is pushed
  unless \<open>acc\<close> already holds a call with the same \<open>call_timestamp\<close>.
\<close>

definition dedupStep :: "'a call_scheme list \<Rightarrow> 'a call_scheme \<Rightarrow> 'a call_scheme list" where
  "dedupStep acc current =
     (case find (\<lambda>c. call_timestamp c = call_timestamp current) acc of
        None \<Rightarrow> acc @ [current]
      | Some exists \<Rightarrow> acc)"

text \<open>\<open>callsData?.reduce(...) || []\<close>: a null \<open>callsData\<close> gives the empty list.\<close>

definition uniqueCalls :: "'a call_scheme list option \<Rightarrow> 'a call_scheme list" where
  "uniqueCalls callsData =
     (case callsData of
        None \<Rightarrow> []
      | Some rows \<Rightarrow> foldl dedupStep [] rows)"

text \<open>
  \<open>fetchCallerData\<close>, given the reply of the query for the caller's calls (all calls of
  the phone number, ordered by \<open>call_timestamp\<close> descending). A reply with an error is
  thrown and caught: the message is stored and loading ends.
\<close>

definition fetchCallerData :: "'a call_scheme list response \<Rightarrow> 'a details_state \<Rightarrow> 'a details_state" where
  "fetchCallerData reply s =
     (let s1 = s\<lparr>isLoading := True, errorMessage := None\<rparr> in
      case error reply of
        Some message \<Rightarrow> s1\<lparr>errorMessage := Some message, isLoading := False\<rparr>
      | None \<Rightarrow>
          (let unique = uniqueCalls (data reply);
               s2 = s1\<lparr>calls := unique\<rparr>;
               s3 = (if length unique > 0 then s2\<lparr>selectedCall := Some (unique ! 0)\<rparr> else s2)
           in s3\<lparr>isLoading := False\<rparr>))"

text \<open>
  The INSERT notification handler. \<open>mergeInserted\<close> is the updater passed to \<open>setCalls\<close>,
  \<open>selectInserted\<close> the updater passed to \<open>setSelectedCall\<close> (\<open>current || newCall\<close>: a
  call object is always truthy); \<open>onInsert\<close> applies both to the state.
\<close>

definition mergeInserted :: "'a call_scheme \<Rightarrow> 'a call_scheme list \<Rightarrow> 'a call_scheme list" where
  "mergeInserted newCall prevCalls =
     (if list_ex (\<lambda>c. call_timestamp c = call_timestamp newCall) prevCalls
      then prevCalls
      else newCall # prevCalls)"

definition selectInserted :: "'a call_scheme \<Rightarrow> 'a call_scheme option \<Rightarrow> 'a call_scheme option" where
  "selectInserted newCall current =
     (case current of Some c \<Rightarrow> Some c | None \<Rightarrow> Some newCall)"

definition onInsert :: "'a call_scheme \<Rightarrow> 'a details_state \<Rightarrow> 'a details_state" where
  "onInsert newCall s =
     s\<lparr>calls := mergeInserted newCall (calls s),
       selectedCall := selectInserted newCall (selectedCall s)\<rparr>"

text \<open>
  The time a timestamp string denotes is decided outside this code (by the backend's
  ordering, or by \<open>Date\<close>): it is a parameter \<open>getTime\<close>, the value of
  \<open>new Date(s).getTime()\<close> in milliseconds, \<open>None\<close> for an unparsable string (NaN).
  Call \<open>a\<close> is at least as recent as call \<open>b\<close> when both times exist and that of \<open>b\<close> is
  not later; a call list is most-recent-first when every entry is at least as recent as
  every later one.
\<close>

definition atLeastAsRecent :: "(string \<Rightarrow> int option) \<Rightarrow> 'a call_scheme \<Rightarrow> 'a call_scheme \<Rightarrow> bool" where
  "atLeastAsRecent getTime a b =
     (case (getTime (call_timestamp a), getTime (call_timestamp b)) of
        (Some ta, Some tb) \<Rightarrow> tb \<le> ta
      | _ \<Rightarrow> False)"

definition mostRecentFirst :: "(string \<Rightarrow> int option) \<Rightarrow> 'a call_scheme list \<Rightarrow> bool" where
  "mostRecentFirst getTime cs = sorted_wrt (atLeastAsRecent getTime) cs"

text \<open>
  The fold, seen from outside: walking the rows with the set of timestamps already kept,
  a row is kept exactly when its timestamp is new.
\<close>

fun keepFirst :: "string set \<Rightarrow> 'a call_scheme list \<Rightarrow> 'a call_scheme list" where
  "keepFirst seen [] = []"
| "keepFirst seen (c # cs) =
     (if call_timestamp c \<in> seen then keepFirst seen cs
      else c # keepFirst (insert (call_timestamp c) seen) cs)"

section \<open>PatientList: the caller ranking engine\<close>

text \<open>
  A \<open>Caller\<close> row (the optional notes on history and orientation are never read here), the
  row of the per-caller query \<open>select('urgency_level, source')\<close>, and the caller with the
  two joined attributes spread onto it.
\<close>

record caller =
  phone_number :: string
  name :: "string option"
  last_call_timestamp :: string

record score_row =
  urgency_level :: "UrgencyLevel option"
  source :: "string option"

record scored_caller = caller +
  urgency_level :: "UrgencyLevel option"
  last_source :: "string option"

datatype SortField = urgency | lastCall

datatype SortOrder = asc | desc

text \<open>The filter tabs \<open>'All' | 'Phone Call' | 'Chatbot'\<close>.\<close>

datatype FilterSource = AllSources | PhoneCall | Chatbot

record list_state =
  callers :: "scored_caller list"
  selectedId :: "string option"
  mounted :: bool
  sortField :: SortField
  sortOrder :: SortOrder
  filterSource :: FilterSource

text \<open>The table \<open>{ 'IMMINENT': 3, 'MEDIUM': 2, 'LOW': 1 }\<close>.\<close>

fun urgencyOrder :: "UrgencyLevel \<Rightarrow> int" where
  "urgencyOrder IMMINENT = 3"
| "urgencyOrder MEDIUM = 2"
| "urgencyOrder LOW = 1"

text \<open>
  The comparator handed to \<open>sort\<close>; \<open>None\<close> is NaN. \<open>a.urgency_level || 'LOW'\<close> replaces a
  missing level by \<open>LOW\<close>. For the last-call key the two timestamps are parsed by
  \<open>getTime\<close>; when one of them does not parse the difference is NaN. Only the sign of a
  result matters to \<open>sort\<close>, and the sign of a difference of time values is exact.
\<close>

definition compareCallers ::
  "(string \<Rightarrow> int option) \<Rightarrow> SortField \<Rightarrow> SortOrder \<Rightarrow> scored_caller \<Rightarrow> scored_caller
     \<Rightarrow> int option" where
  "compareCallers getTime field order a b =
     (if field = urgency then
        (let levelA = (case urgency_level a of Some l \<Rightarrow> l | None \<Rightarrow> LOW);
             levelB = (case urgency_level b of Some l \<Rightarrow> l | None \<Rightarrow> LOW)
         in if order = asc
            then Some (urgencyOrder levelA - urgencyOrder levelB)
            else Some (urgencyOrder levelB - urgencyOrder levelA))
      else
        (case (getTime (last_call_timestamp a), getTime (last_call_timestamp b)) of
           (Some dateA, Some dateB) \<Rightarrow> (if order = asc then Some (dateA - dateB) else Some (dateB - dateA))
         | _ \<Rightarrow> None))"

text \<open>
  \<open>Array.prototype.sort\<close> with a comparator, as the language defines it. The engine calls
  the comparator through \<open>SortCompare\<close>, which reads NaN as \<open>0\<close>. When the comparator is a
  consistent comparator for the items (it never returns NaN, every item compares equal to
  itself, equality is symmetric, and equality, less and greater are transitive), the
  result is fixed: the items in comparator order, equal items in their original order.
  That order is computed here by stable insertion: an item goes in front of the first
  later item it does not compare greater than. When the comparator is not consistent, the
  order is left to the engine.
\<close>

definition sortCompare :: "('a \<Rightarrow> 'a \<Rightarrow> int option) \<Rightarrow> 'a \<Rightarrow> 'a \<Rightarrow> int" where
  "sortCompare comparefn x y = (case comparefn x y of None \<Rightarrow> 0 | Some v \<Rightarrow> v)"

definition consistentComparator :: "('a \<Rightarrow> 'a \<Rightarrow> int option) \<Rightarrow> 'a list \<Rightarrow> bool" where
  "consistentComparator comparefn items =
     list_all (\<lambda>a. list_all (\<lambda>b. list_all (\<lambda>c.
       (case (comparefn a a, comparefn a b, comparefn b a, comparefn b c, comparefn a c) of
          (Some aa, Some ab, Some ba, Some bc, Some ac) \<Rightarrow>
             aa = 0
             \<and> (ab = 0 \<longrightarrow> ba = 0)
             \<and> (ab = 0 \<and> bc = 0 \<longrightarrow> ac = 0)
             \<and> (ab < 0 \<and> bc < 0 \<longrightarrow> ac < 0)
             \<and> (ab > 0 \<and> bc > 0 \<longrightarrow> ac > 0)
        | _ \<Rightarrow> False)) items) items) items"

fun insertSorted :: "('a \<Rightarrow> 'a \<Rightarrow> int) \<Rightarrow> 'a \<Rightarrow> 'a list \<Rightarrow> 'a list" where
  "insertSorted cmp x [] = [x]"
| "insertSorted cmp x (y # ys) =
     (if cmp x y \<le> 0 then x # y # ys else y # insertSorted cmp x ys)"

fun stableSort :: "('a \<Rightarrow> 'a \<Rightarrow> int) \<Rightarrow> 'a list \<Rightarrow> 'a list" where
  "stableSort cmp [] = []"
| "stableSort cmp (x # xs) = insertSorted cmp x (stableSort cmp xs)"

text \<open>
  An engine's sort is a parameter of the model. All that is known of it is that it
  rearranges the items it is given: the type \<open>'a sort_engine\<close> holds exactly the functions
  that return a permutation of their input, whatever the comparator.
\<close>

typedef 'a sort_engine =
  "{f :: ('a \<Rightarrow> 'a \<Rightarrow> int) \<Rightarrow> 'a list \<Rightarrow> 'a list. \<forall>cmp items. mset (f cmp items) = mset items}"
  morphisms runEngine Abs_sort_engine
  by (rule exI [of _ "\<lambda>cmp items. items"]) simp

setup_lifting type_definition_sort_engine

definition arraySort :: "'a sort_engine \<Rightarrow> ('a \<Rightarrow> 'a \<Rightarrow> int option) \<Rightarrow> 'a list \<Rightarrow> 'a list" where
  "arraySort engine comparefn items =
     (if consistentComparator comparefn items
      then stableSort (sortCompare comparefn) items
      else runEngine engine (sortCompare comparefn) items)"

text \<open>
  One engine, to run the model on: what V8 does with an array of fewer than 64 items.
  \<open>CountAndMakeRun\<close> finds the run the array starts with, non-descending or strictly
  descending, and reverses a descending run; \<open>BinaryInsertionSort\<close> then inserts every
  later item into the sorted front, at the place a binary search finds. (On longer arrays
  V8 collects several runs and merges them; that part is not modelled, and nothing below
  depends on which engine runs.)
\<close>

fun countRun :: "('a \<Rightarrow> 'a \<Rightarrow> int) \<Rightarrow> bool \<Rightarrow> 'a \<Rightarrow> 'a list \<Rightarrow> nat" where
  "countRun cmp isDescending previousElement [] = 0"
| "countRun cmp isDescending previousElement (currentElement # rest) =
     (let order = cmp currentElement previousElement in
      if (if isDescending then order \<ge> 0 else order < 0) then 0
      else Suc (countRun cmp isDescending currentElement rest))"

definition countAndMakeRun :: "('a \<Rightarrow> 'a \<Rightarrow> int) \<Rightarrow> 'a list \<Rightarrow> nat \<times> 'a list" where
  "countAndMakeRun cmp workArray =
     (case workArray of
        elementHigh # elementLow # rest \<Rightarrow>
          (let isDescending = (cmp elementLow elementHigh < 0);
               runLength = 2 + countRun cmp isDescending elementLow rest
           in (runLength,
               if isDescending
               then rev (take runLength workArray) @ drop runLength workArray
               else workArray))
      | _ \<Rightarrow> (length workArray, workArray))"

function findInsertionPoint :: "('a \<Rightarrow> 'a \<Rightarrow> int) \<Rightarrow> 'a \<Rightarrow> 'a list \<Rightarrow> nat \<Rightarrow> nat \<Rightarrow> nat" where
  "findInsertionPoint cmp pivot workArray left right =
     (if left < right then
        (if cmp pivot (workArray ! (left + (right - left) div 2)) < 0
         then findInsertionPoint cmp pivot workArray left (left + (right - left) div 2)
         else findInsertionPoint cmp pivot workArray (left + (right - left) div 2 + 1) right)
      else left)"
  by pat_completeness auto
termination
  by (relation "measure (\<lambda>(cmp, pivot, workArray, left, right). right - left)") auto

declare findInsertionPoint.simps [simp del]

text \<open>
  One round of \<open>BinaryInsertionSort\<close>: \<open>front\<close> is the front of the array up to \<open>start\<close>, and
  the pivot, the item at \<open>start\<close>, is moved to the place found.
\<close>

definition insertPivot :: "('a \<Rightarrow> 'a \<Rightarrow> int) \<Rightarrow> 'a list \<Rightarrow> 'a \<Rightarrow> 'a list" where
  "insertPivot cmp front pivot =
     (let left = findInsertionPoint cmp pivot front 0 (length front)
      in take left front @ pivot # drop left front)"

definition runInsertionSort :: "('a \<Rightarrow> 'a \<Rightarrow> int) \<Rightarrow> 'a list \<Rightarrow> 'a list" where
  "runInsertionSort cmp items =
     (if length items < 2 then items
      else (let (runLength, workArray) = countAndMakeRun cmp items
            in foldl (insertPivot cmp) (take runLength workArray) (drop runLength workArray)))"

lemma mset_insertPivot: "mset (insertPivot cmp front pivot) = add_mset pivot (mset front)"
proof -
  have "mset (take n front @ pivot # drop n front) = add_mset pivot (mset front)" for n
    by (metis append_take_drop_id mset.simps(2) mset_append union_mset_add_mset_right)
  then show ?thesis by (simp add: insertPivot_def Let_def)
qed

lemma mset_foldl_insertPivot:
  "mset (foldl (insertPivot cmp) front rest) = mset front + mset rest"
  by (induction rest arbitrary: front) (simp_all add: mset_insertPivot)

lemma mset_reverse_front: "mset (rev (take n xs) @ drop n xs) = mset xs"
  by (metis append_take_drop_id mset_append mset_rev)

lemma mset_countAndMakeRun: "mset (snd (countAndMakeRun cmp items)) = mset items"
proof (cases items)
  case Nil
  then show ?thesis by (simp add: countAndMakeRun_def)
next
  case outer: (Cons elementHigh tail)
  show ?thesis
  proof (cases tail)
    case Nil
    with outer show ?thesis by (simp add: countAndMakeRun_def)
  next
    case (Cons elementLow rest)
    with outer have items: "items = elementHigh # elementLow # rest" by simp
    show ?thesis
      unfolding items countAndMakeRun_def Let_def
      by (simp only: list.case snd_conv if_distrib [of mset] mset_reverse_front if_cancel)
  qed
qed

lemma mset_runInsertionSort: "mset (runInsertionSort cmp items) = mset items"
proof (cases "length items < 2")
  case True
  then show ?thesis by (simp add: runInsertionSort_def)
next
  case False
  obtain runLength workArray where run: "countAndMakeRun cmp items = (runLength, workArray)"
    by (cases "countAndMakeRun cmp items")
  then have "mset workArray = mset items"
    using mset_countAndMakeRun [of cmp items] by simp
  moreover have "mset (take runLength workArray) + mset (drop runLength workArray) = mset workArray"
    by (metis append_take_drop_id mset_append)
  ultimately show ?thesis
    using False run by (simp add: runInsertionSort_def mset_foldl_insertPivot)
qed

lift_definition runInsertionEngine :: "'a sort_engine" is runInsertionSort
  by (rule mset_runInsertionSort)

definition sortCallers ::
  "scored_caller sort_engine \<Rightarrow> (string \<Rightarrow> int option) \<Rightarrow> scored_caller list \<Rightarrow> SortField
     \<Rightarrow> SortOrder \<Rightarrow> scored_caller list" where
  "sortCallers engine getTime callerList field order =
     arraySort engine (compareCallers getTime field order) callerList"

definition handleSort :: "SortField \<Rightarrow> list_state \<Rightarrow> list_state" where
  "handleSort field s =
     (if sortField s = field
      then s\<lparr>sortOrder := (if sortOrder s = asc then desc else asc)\<rparr>
      else s\<lparr>sortField := field, sortOrder := desc\<rparr>)"

text \<open>
  The callback mapped over the callers: the reply of the caller's most-recent-call query
  (one row at most) is read through \<open>callsData?.[0]?.urgency_level\<close> and
  \<open>callsData?.[0]?.source || null\<close>; the reply's \<open>error\<close> is never looked at, and an empty
  source string becomes null.
\<close>

definition withScore :: "(string \<Rightarrow> score_row list response) \<Rightarrow> caller \<Rightarrow> scored_caller" where
  "withScore callsReply c =
     (let callsData = data (callsReply (phone_number c));
          first = (case callsData of Some (row # rest) \<Rightarrow> Some row | _ \<Rightarrow> None)
      in \<lparr>phone_number = phone_number c, name = name c,
          last_call_timestamp = last_call_timestamp c,
          urgency_level = (case first of Some row \<Rightarrow> score_row.urgency_level row | None \<Rightarrow> None),
          last_source =
            (case first of
               Some row \<Rightarrow> (case source row of
                              Some src \<Rightarrow> (if src = [] then None else Some src)
                            | None \<Rightarrow> None)
             | None \<Rightarrow> None)\<rparr>)"

text \<open>
  One run of \<open>fetchCallersAndScores\<close>, given the reply of the callers query and, for each
  phone number, the reply of its most-recent-call query. Besides the next state it
  returns what the run wrote with \<open>console.error\<close> and the callers it passed to
  \<open>onSelect\<close>. \<open>if (selectedId)\<close> is false for null and for the empty string. The engine
  whose \<open>sort\<close> runs is a parameter.
\<close>

record fetch_result =
  nextState :: list_state
  logged :: "(string \<times> string) list"
  selected :: "scored_caller list"

definition fetchCallersAndScores ::
  "scored_caller sort_engine \<Rightarrow> (string \<Rightarrow> int option) \<Rightarrow> caller list response
     \<Rightarrow> (string \<Rightarrow> score_row list response) \<Rightarrow> list_state \<Rightarrow> fetch_result" where
  "fetchCallersAndScores engine getTime callersReply callsReply s =
     (case error callersReply of
        Some callersError \<Rightarrow>
          \<lparr>nextState = s, logged = [(''Error fetching callers:'', callersError)], selected = []\<rparr>
      | None \<Rightarrow>
          (let callersData = (case data callersReply of Some rows \<Rightarrow> rows | None \<Rightarrow> []);
               callersWithScoresData = map (withScore callsReply) callersData;
               sortedCallers = sortCallers engine getTime callersWithScoresData (sortField s) (sortOrder s)
           in \<lparr>nextState = s\<lparr>callers := sortedCallers\<rparr>,
               logged = [],
               selected =
                 (case selectedId s of
                    None \<Rightarrow> []
                  | Some sid \<Rightarrow>
                      (if sid = [] then []
                       else (case find (\<lambda>c. phone_number c = sid) sortedCallers of
                               Some selectedCaller \<Rightarrow> [selectedCaller]
                             | None \<Rightarrow> [])))\<rparr>))"

text \<open>The rows rendered: the state's callers through the filter of the active tab.\<close>

definition matchesFilter :: "FilterSource \<Rightarrow> scored_caller \<Rightarrow> bool" where
  "matchesFilter tab c =
     (case tab of
        AllSources \<Rightarrow> True
      | PhoneCall \<Rightarrow> last_source c = Some ''Phone''
      | Chatbot \<Rightarrow> last_source c = Some ''Chatbot'')"

definition visibleCallers :: "list_state \<Rightarrow> scored_caller list" where
  "visibleCallers s = filter (matchesFilter (filterSource s)) (callers s)"

text \<open>
  The sort keys in the words of the specification: LOW is 1, MEDIUM is 2, IMMINENT is 3,
  and a missing level counts as LOW; the last-call key is the time of the timestamp.
\<close>

definition urgencyKey :: "scored_caller \<Rightarrow> int" where
  "urgencyKey c =
     (case urgency_level c of
        None \<Rightarrow> 1
      | Some LOW \<Rightarrow> 1
      | Some MEDIUM \<Rightarrow> 2
      | Some IMMINENT \<Rightarrow> 3)"

definition lastCallKey :: "(string \<Rightarrow> int option) \<Rightarrow> scored_caller \<Rightarrow> int" where
  "lastCallKey getTime c = (case getTime (last_call_timestamp c) of Some t \<Rightarrow> t | None \<Rightarrow> 0)"

section \<open>PatientDetails: key-question extraction\<close>

text \<open>
  The string operations \<open>filterKeyQuestions\<close> calls, on HOL strings: \<open>s.startsWith(p)\<close>,
  \<open>s.includes(q)\<close>, \<open>s.replace(p, r)\<close> with a string pattern (the first occurrence only),
  \<open>s.trim()\<close>, \<open>s.split('\n')\<close> and \<open>xs.join('\n')\<close>. White space is the ASCII white
  space; the canonical questions neither start nor end with white space of any kind, so
  what \<open>trim\<close> removes never decides a match.
\<close>

fun startsWith :: "string \<Rightarrow> string \<Rightarrow> bool" where
  "startsWith s [] = True"
| "startsWith [] (p # ps) = False"
| "startsWith (c # cs) (p # ps) = (c = p \<and> startsWith cs ps)"

fun includesStr :: "string \<Rightarrow> string \<Rightarrow> bool" where
  "includesStr [] q = (q = [])"
| "includesStr (c # cs) q = (startsWith (c # cs) q \<or> includesStr cs q)"

fun replaceFirst :: "string \<Rightarrow> string \<Rightarrow> string \<Rightarrow> string" where
  "replaceFirst [] p r = (if p = [] then r else [])"
| "replaceFirst (c # cs) p r =
     (if startsWith (c # cs) p then r @ drop (length p) (c # cs)
      else c # replaceFirst cs p r)"

definition isWhiteSpace :: "char \<Rightarrow> bool" where
  "isWhiteSpace c = (c \<in> {CHR 0x09, CHR 0x0A, CHR 0x0B, CHR 0x0C, CHR 0x0D, CHR '' ''})"

definition trim :: "string \<Rightarrow> string" where
  "trim s = rev (dropWhile isWhiteSpace (rev (dropWhile isWhiteSpace s)))"

definition newline :: char where
  "newline = CHR 0x0A"

fun splitLines :: "string \<Rightarrow> string list" where
  "splitLines [] = [[]]"
| "splitLines (c # cs) =
     (if c = newline then [] # splitLines cs
      else (case splitLines cs of
              [] \<Rightarrow> [[c]]
            | l # ls \<Rightarrow> (c # l) # ls))"

fun joinLines :: "string list \<Rightarrow> string" where
  "joinLines [] = []"
| "joinLines [l] = l"
| "joinLines (l # m # ls) = l @ newline # joinLines (m # ls)"

definition keyQuestions :: "string list" where
  "keyQuestions =
     [''How are you feeling?'',
      ''Have you had any thoughts of suicide in the last few days, including today?'',
      ''Have you done anything to harm yourself today?'',
      ''Do you need urgent help?'']"

text \<open>
  For an AI line, \<open>keyQuestions.find(q => aiMessage.includes(q))\<close>: the first question of
  the list that the message contains. Other lines are not looked at.
\<close>

definition matchingQuestion :: "string \<Rightarrow> string option" where
  "matchingQuestion line =
     (if startsWith line ''AI:''
      then (let aiMessage = trim (replaceFirst line ''AI:'' [])
            in find (\<lambda>q. includesStr aiMessage q) keyQuestions)
      else None)"

text \<open>
  The loop's variables, the body of the loop at index \<open>i\<close>, and the loop from index \<open>i\<close>
  on. \<open>matchingQuestion && ...\<close> is false for undefined and for the empty string.
\<close>

record scan_state =
  filteredLines :: "string list"
  foundQuestions :: "string set"

definition scanLine :: "string list \<Rightarrow> nat \<Rightarrow> scan_state \<Rightarrow> scan_state" where
  "scanLine lines i st =
     (let line = lines ! i in
      case matchingQuestion line of
        None \<Rightarrow> st
      | Some q \<Rightarrow>
          (if q \<noteq> [] \<and> q \<notin> foundQuestions st then
             (let st1 = st\<lparr>foundQuestions := insert q (foundQuestions st),
                           filteredLines := filteredLines st @ [line]\<rparr>
              in if i + 1 < length lines \<and> startsWith (lines ! (i + 1)) ''User:''
                 then st1\<lparr>filteredLines := filteredLines st1 @ [lines ! (i + 1)]\<rparr>
                 else st1)
           else st))"

function scanFrom :: "string list \<Rightarrow> nat \<Rightarrow> scan_state \<Rightarrow> scan_state" where
  "scanFrom lines i st =
     (if i < length lines then scanFrom lines (i + 1) (scanLine lines i st) else st)"
  by pat_completeness auto
termination
  by (relation "measure (\<lambda>(lines, i, st). length lines - i)") auto

declare scanFrom.simps [simp del]

definition filterKeyQuestions :: "string \<Rightarrow> string" where
  "filterKeyQuestions transcript =
     (let lines = splitLines transcript
      in joinLines (filteredLines (scanFrom lines 0 \<lparr>filteredLines = [], foundQuestions = {}\<rparr>)))"

text \<open>
  The extraction described from outside. A line is the first for its question when it has
  a matching question that no earlier line has; such a line is emitted, with the next line
  after it when that one is a user line.
\<close>

definition userReply :: "string list \<Rightarrow> nat \<Rightarrow> string list" where
  "userReply lines i =
     (if i + 1 < length lines \<and> startsWith (lines ! (i + 1)) ''User:''
      then [lines ! (i + 1)] else [])"

definition firstForQuestion :: "string list \<Rightarrow> nat \<Rightarrow> bool" where
  "firstForQuestion lines i =
     (case matchingQuestion (lines ! i) of
        None \<Rightarrow> False
      | Some q \<Rightarrow> list_all (\<lambda>j. matchingQuestion (lines ! j) \<noteq> Some q) [0..<i])"

definition extracted :: "string list \<Rightarrow> string list" where
  "extracted lines =
     concat (map (\<lambda>i. if firstForQuestion lines i then lines ! i # userReply lines i else [])
               [0..<length lines])"

text \<open>
  The extraction in the words of the specification: a line asks a question when it is an
  AI line whose message contains the question; for each canonical question the first line
  asking it is emitted, with the user line after it.
\<close>

definition asks :: "string \<Rightarrow> string \<Rightarrow> bool" where
  "asks line q = (startsWith line ''AI:'' \<and> includesStr (trim (replaceFirst line ''AI:'' [])) q)"

definition firstOccurrence :: "string list \<Rightarrow> string \<Rightarrow> nat \<Rightarrow> bool" where
  "firstOccurrence lines q i =
     (asks (lines ! i) q \<and> list_all (\<lambda>j. \<not> asks (lines ! j) q) [0..<i])"

definition specExtracted :: "string list \<Rightarrow> string list" where
  "specExtracted lines =
     concat (map (\<lambda>i. if list_ex (\<lambda>q. firstOccurrence lines q i) keyQuestions
                       then lines ! i # userReply lines i else [])
               [0..<length lines])"

definition oneQuestionPerLine :: "string list \<Rightarrow> bool" where
  "oneQuestionPerLine lines =
     list_all (\<lambda>line. length (filter (asks line) keyQuestions) \<le> 1) lines"

section \<open>Deduplication on load\<close>

lemma dedupStep_eq:
  "dedupStep acc c =
     (if call_timestamp c \<in> call_timestamp ` set acc then acc else acc @ [c])"
proof (cases "find (\<lambda>d. call_timestamp d = call_timestamp c) acc")
  case None
  then have "call_timestamp c \<notin> call_timestamp ` set acc"
    by (auto simp: find_None_iff)
  with None show ?thesis by (simp add: dedupStep_def)
next
  case (Some d)
  then have "call_timestamp c \<in> call_timestamp ` set acc"
    by (auto simp: find_Some_iff image_iff) (metis nth_mem)
  with Some show ?thesis by (simp add: dedupStep_def)
qed

lemma foldl_dedupStep:
  "foldl dedupStep acc rows = acc @ keepFirst (call_timestamp ` set acc) rows"
proof (induction rows arbitrary: acc)
  case Nil
  show ?case by simp
next
  case (Cons c rows)
  show ?case
  proof (cases "call_timestamp c \<in> call_timestamp ` set acc")
    case True
    then have "dedupStep acc c = acc" by (simp add: dedupStep_eq)
    with True show ?thesis by (simp add: Cons.IH)
  next
    case False
    then have "dedupStep acc c = acc @ [c]" by (simp add: dedupStep_eq)
    with False show ?thesis by (simp add: Cons.IH)
  qed
qed

lemma uniqueCalls_keepFirst: "uniqueCalls (Some rows) = keepFirst {} rows"
  by (simp add: uniqueCalls_def foldl_dedupStep)

lemma keepFirst_timestamps:
  "set (map call_timestamp (keepFirst seen cs)) = set (map call_timestamp cs) - seen"
  by (induction cs arbitrary: seen) auto

lemma keepFirst_distinct: "distinct (map call_timestamp (keepFirst seen cs))"
proof (induction cs arbitrary: seen)
  case Nil
  show ?case by simp
next
  case (Cons c cs)
  have "call_timestamp c \<notin> set (map call_timestamp (keepFirst (insert (call_timestamp c) seen) cs))"
    unfolding keepFirst_timestamps by simp
  with Cons.IH show ?case by simp
qed

lemma keepFirst_subseq: "subseq (keepFirst seen cs) cs"
  by (induction cs arbitrary: seen) auto

lemma keepFirst_fresh:
  "c \<in> set (keepFirst seen cs) \<Longrightarrow> call_timestamp c \<notin> seen"
  using keepFirst_timestamps [of seen cs] by auto

lemma keepFirst_first:
  "c \<in> set (keepFirst seen cs) \<Longrightarrow>
     find (\<lambda>d. call_timestamp d = call_timestamp c) cs = Some c"
proof (induction cs arbitrary: seen)
  case Nil
  then show ?case by simp
next
  case (Cons x cs)
  show ?case
  proof (cases "call_timestamp x \<in> seen")
    case True
    with Cons.prems have mem: "c \<in> set (keepFirst seen cs)" by simp
    then have "call_timestamp c \<notin> seen" by (rule keepFirst_fresh)
    with True have "call_timestamp x \<noteq> call_timestamp c" by auto
    with Cons.IH [OF mem] show ?thesis by simp
  next
    case False
    with Cons.prems
    consider "c = x" | "c \<in> set (keepFirst (insert (call_timestamp x) seen) cs)"
      by auto
    then show ?thesis
    proof cases
      case 1
      then show ?thesis by simp
    next
      case 2
      then have "call_timestamp c \<notin> insert (call_timestamp x) seen"
        by (rule keepFirst_fresh)
      then have "call_timestamp x \<noteq> call_timestamp c" by auto
      with Cons.IH [OF 2] show ?thesis by simp
    qed
  qed
qed

text \<open>
  Claim C3. Deduplication on load keeps exactly one entry per distinct call timestamp:
  the kept timestamps are pairwise distinct and are exactly the timestamps of the input.
  The entry kept for a timestamp is the first one the input holds for it, and the kept
  entries stay in input order. On \<open>[T2, T2, T1]\<close> the result is the first \<open>T2\<close> entry
  followed by the \<open>T1\<close> entry.
\<close>

theorem uniqueCalls_first_per_timestamp:
  "distinct (map call_timestamp (uniqueCalls (Some rows)))
   \<and> set (map call_timestamp (uniqueCalls (Some rows))) = set (map call_timestamp rows)
   \<and> (\<forall>c \<in> set (uniqueCalls (Some rows)).
         find (\<lambda>d. call_timestamp d = call_timestamp c) rows = Some c)
   \<and> subseq (uniqueCalls (Some rows)) rows
   \<and> uniqueCalls (Some [\<lparr>call_id = ''a'', call_timestamp = ''2025-03-02T09:00:00+00:00''\<rparr>,
                         \<lparr>call_id = ''b'', call_timestamp = ''2025-03-02T09:00:00+00:00''\<rparr>,
                         \<lparr>call_id = ''c'', call_timestamp = ''2025-03-01T09:00:00+00:00''\<rparr>])
       = [\<lparr>call_id = ''a'', call_timestamp = ''2025-03-02T09:00:00+00:00''\<rparr>,
          \<lparr>call_id = ''c'', call_timestamp = ''2025-03-01T09:00:00+00:00''\<rparr>]"
proof (intro conjI)
  show "distinct (map call_timestamp (uniqueCalls (Some rows)))"
    unfolding uniqueCalls_keepFirst by (rule keepFirst_distinct)
  show "set (map call_timestamp (uniqueCalls (Some rows))) = set (map call_timestamp rows)"
    unfolding uniqueCalls_keepFirst keepFirst_timestamps by simp
  show "\<forall>c \<in> set (uniqueCalls (Some rows)).
          find (\<lambda>d. call_timestamp d = call_timestamp c) rows = Some c"
    unfolding uniqueCalls_keepFirst by (blast intro: keepFirst_first)
  show "subseq (uniqueCalls (Some rows)) rows"
    unfolding uniqueCalls_keepFirst by (rule keepFirst_subseq)
  show "uniqueCalls (Some [\<lparr>call_id = ''a'', call_timestamp = ''2025-03-02T09:00:00+00:00''\<rparr>,
                         \<lparr>call_id = ''b'', call_timestamp = ''2025-03-02T09:00:00+00:00''\<rparr>,
                         \<lparr>call_id = ''c'', call_timestamp = ''2025-03-01T09:00:00+00:00''\<rparr>])
       = [\<lparr>call_id = ''a'', call_timestamp = ''2025-03-02T09:00:00+00:00''\<rparr>,
          \<lparr>call_id = ''c'', call_timestamp = ''2025-03-01T09:00:00+00:00''\<rparr>]"
    by (simp add: uniqueCalls_def dedupStep_def)
qed

theorem uniqueCalls_first_per_timestamp_witness:
  "uniqueCalls (Some [\<lparr>call_id = ''x'', call_timestamp = ''t2''\<rparr>,
                      \<lparr>call_id = ''y'', call_timestamp = ''t1''\<rparr>,
                      \<lparr>call_id = ''z'', call_timestamp = ''t2''\<rparr>])
     = [\<lparr>call_id = ''x'', call_timestamp = ''t2''\<rparr>, \<lparr>call_id = ''y'', call_timestamp = ''t1''\<rparr>]
   \<and> find (\<lambda>d. call_timestamp d = ''t2'')
        [\<lparr>call_id = ''x'', call_timestamp = ''t2''\<rparr>,
         \<lparr>call_id = ''y'', call_timestamp = ''t1''\<rparr>,
         \<lparr>call_id = ''z'', call_timestamp = ''t2''\<rparr>]
     = Some \<lparr>call_id = ''x'', call_timestamp = ''t2''\<rparr>"
  using uniqueCalls_first_per_timestamp
    [of "[\<lparr>call_id = ''x'', call_timestamp = ''t2''\<rparr>,
          \<lparr>call_id = ''y'', call_timestamp = ''t1''\<rparr>,
          \<lparr>call_id = ''z'', call_timestamp = ''t2''\<rparr>]"]
  by (simp add: uniqueCalls_def dedupStep_def)

section \<open>Insert notifications\<close>

lemma mergeInserted_cases:
  "mergeInserted newCall prev =
     (if call_timestamp newCall \<in> call_timestamp ` set prev then prev else newCall # prev)"
proof (cases "list_ex (\<lambda>c. call_timestamp c = call_timestamp newCall) prev")
  case True
  then obtain c where "c \<in> set prev" "call_timestamp c = call_timestamp newCall"
    by (auto simp: list_ex_iff)
  then have "call_timestamp newCall \<in> call_timestamp ` set prev"
    by (metis imageI)
  with True show ?thesis by (simp add: mergeInserted_def)
next
  case False
  then have "call_timestamp newCall \<notin> call_timestamp ` set prev"
    by (auto simp: list_ex_iff)
  with False show ?thesis by (simp add: mergeInserted_def)
qed

text \<open>
  Claim C4, as amended. The insert-merge leaves the list unchanged when an existing entry
  shares the new call's timestamp and otherwise prepends the new call; applying it twice
  with the same call gives the same list as applying it once. The prepended list is
  most-recent-first exactly when the list was and the new call is at least as recent as
  every entry of it: the handler never compares times.
\<close>

theorem mergeInserted_idempotent:
  "(call_timestamp newCall \<in> set (map call_timestamp prev) \<longrightarrow> mergeInserted newCall prev = prev)
   \<and> (call_timestamp newCall \<notin> set (map call_timestamp prev) \<longrightarrow>
        mergeInserted newCall prev = newCall # prev
        \<and> (mostRecentFirst getTime (mergeInserted newCall prev) \<longleftrightarrow>
             mostRecentFirst getTime prev \<and> (\<forall>c \<in> set prev. atLeastAsRecent getTime newCall c)))
   \<and> mergeInserted newCall (mergeInserted newCall prev) = mergeInserted newCall prev"
proof (intro conjI impI)
  assume "call_timestamp newCall \<in> set (map call_timestamp prev)"
  then show "mergeInserted newCall prev = prev"
    by (simp add: mergeInserted_cases)
next
  assume fresh: "call_timestamp newCall \<notin> set (map call_timestamp prev)"
  then show eq: "mergeInserted newCall prev = newCall # prev"
    by (simp add: mergeInserted_cases)
  show "mostRecentFirst getTime (mergeInserted newCall prev) \<longleftrightarrow>
          mostRecentFirst getTime prev \<and> (\<forall>c \<in> set prev. atLeastAsRecent getTime newCall c)"
    unfolding eq mostRecentFirst_def by auto
next
  show "mergeInserted newCall (mergeInserted newCall prev) = mergeInserted newCall prev"
    by (simp add: mergeInserted_cases)
qed

theorem mergeInserted_idempotent_witness:
  "mergeInserted \<lparr>call_id = ''n'', call_timestamp = ''2025-03-02T09:00:00+00:00''\<rparr>
     [\<lparr>call_id = ''o'', call_timestamp = ''2025-03-01T09:00:00+00:00''\<rparr>]
   = [\<lparr>call_id = ''n'', call_timestamp = ''2025-03-02T09:00:00+00:00''\<rparr>,
      \<lparr>call_id = ''o'', call_timestamp = ''2025-03-01T09:00:00+00:00''\<rparr>]
   \<and> mostRecentFirst
        (\<lambda>s. if s = ''2025-03-01T09:00:00+00:00'' then Some 1740819600000
             else if s = ''2025-03-02T09:00:00+00:00'' then Some 1740906000000 else None)
        (mergeInserted \<lparr>call_id = ''n'', call_timestamp = ''2025-03-02T09:00:00+00:00''\<rparr>
           [\<lparr>call_id = ''o'', call_timestamp = ''2025-03-01T09:00:00+00:00''\<rparr>])
   \<and> mergeInserted \<lparr>call_id = ''d'', call_timestamp = ''2025-03-01T09:00:00+00:00''\<rparr>
        [\<lparr>call_id = ''o'', call_timestamp = ''2025-03-01T09:00:00+00:00''\<rparr>]
     = [\<lparr>call_id = ''o'', call_timestamp = ''2025-03-01T09:00:00+00:00''\<rparr>]"
  using mergeInserted_idempotent
    [of "\<lparr>call_id = ''n'', call_timestamp = ''2025-03-02T09:00:00+00:00''\<rparr>"
        "[\<lparr>call_id = ''o'', call_timestamp = ''2025-03-01T09:00:00+00:00''\<rparr>]"
        "\<lambda>s. if s = ''2025-03-01T09:00:00+00:00'' then Some 1740819600000
             else if s = ''2025-03-02T09:00:00+00:00'' then Some 1740906000000 else None"]
    mergeInserted_idempotent
    [of "\<lparr>call_id = ''d'', call_timestamp = ''2025-03-01T09:00:00+00:00''\<rparr>"
        "[\<lparr>call_id = ''o'', call_timestamp = ''2025-03-01T09:00:00+00:00''\<rparr>]"]
  by (simp add: mostRecentFirst_def atLeastAsRecent_def)

text \<open>
  The claim as written, with most-recent-first order preserved for every payload, fails
  when the inserted row is older than the list's head: the list \<open>[2 March]\<close> is
  most-recent-first, the row of 1 March is prepended, and \<open>[1 March, 2 March]\<close> is not.
\<close>

theorem mergeInserted_older_counterexample:
  "mostRecentFirst
     (\<lambda>s. if s = ''2025-03-01T09:00:00+00:00'' then Some 1740819600000
          else if s = ''2025-03-02T09:00:00+00:00'' then Some 1740906000000 else None)
     [\<lparr>call_id = ''n'', call_timestamp = ''2025-03-02T09:00:00+00:00''\<rparr>]
   \<and> mergeInserted \<lparr>call_id = ''o'', call_timestamp = ''2025-03-01T09:00:00+00:00''\<rparr>
        [\<lparr>call_id = ''n'', call_timestamp = ''2025-03-02T09:00:00+00:00''\<rparr>]
     = [\<lparr>call_id = ''o'', call_timestamp = ''2025-03-01T09:00:00+00:00''\<rparr>,
        \<lparr>call_id = ''n'', call_timestamp = ''2025-03-02T09:00:00+00:00''\<rparr>]
   \<and> \<not> mostRecentFirst
        (\<lambda>s. if s = ''2025-03-01T09:00:00+00:00'' then Some 1740819600000
             else if s = ''2025-03-02T09:00:00+00:00'' then Some 1740906000000 else None)
        (mergeInserted \<lparr>call_id = ''o'', call_timestamp = ''2025-03-01T09:00:00+00:00''\<rparr>
           [\<lparr>call_id = ''n'', call_timestamp = ''2025-03-02T09:00:00+00:00''\<rparr>])"
  by (simp add: mostRecentFirst_def atLeastAsRecent_def mergeInserted_def)

lemma onInsert_selected: "selectedCall (onInsert newCall s) = selectInserted newCall (selectedCall s)"
  by (simp add: onInsert_def)

lemma foldl_onInsert_selected:
  "selectedCall s = Some c \<Longrightarrow> selectedCall (foldl (\<lambda>st n. onInsert n st) s news) = Some c"
  by (induction news arbitrary: s) (simp_all add: onInsert_def selectInserted_def)

text \<open>
  Claim C5. When a call is selected, handling an insert notification leaves the selection
  as it is, and so does any sequence of notifications; when no call is selected, the
  notification's call becomes the selection.
\<close>

theorem onInsert_selection_stable:
  "(selectedCall s = Some c \<longrightarrow> selectedCall (onInsert newCall s) = Some c)
   \<and> (selectedCall s = None \<longrightarrow> selectedCall (onInsert newCall s) = Some newCall)
   \<and> (selectedCall s = Some c \<longrightarrow>
        selectedCall (foldl (\<lambda>st n. onInsert n st) s news) = Some c)"
proof (intro conjI impI)
  assume "selectedCall s = Some c"
  then show "selectedCall (onInsert newCall s) = Some c"
    by (simp add: onInsert_selected selectInserted_def)
next
  assume "selectedCall s = None"
  then show "selectedCall (onInsert newCall s) = Some newCall"
    by (simp add: onInsert_selected selectInserted_def)
next
  assume "selectedCall s = Some c"
  then show "selectedCall (foldl (\<lambda>st n. onInsert n st) s news) = Some c"
    by (rule foldl_onInsert_selected)
qed

theorem onInsert_selection_stable_witness:
  "selectedCall (onInsert \<lparr>call_id = ''n'', call_timestamp = ''t2''\<rparr>
      \<lparr>calls = [\<lparr>call_id = ''o'', call_timestamp = ''t1''\<rparr>], isLoading = False,
       errorMessage = None, selectedCall = Some \<lparr>call_id = ''o'', call_timestamp = ''t1''\<rparr>\<rparr>)
     = Some \<lparr>call_id = ''o'', call_timestamp = ''t1''\<rparr>
   \<and> selectedCall (onInsert \<lparr>call_id = ''n'', call_timestamp = ''t2''\<rparr>
      \<lparr>calls = [], isLoading = False, errorMessage = None, selectedCall = None\<rparr>)
     = Some \<lparr>call_id = ''n'', call_timestamp = ''t2''\<rparr>"
  using onInsert_selection_stable
    [of "\<lparr>calls = [\<lparr>call_id = ''o'', call_timestamp = ''t1''\<rparr>], isLoading = False,
          errorMessage = None, selectedCall = Some \<lparr>call_id = ''o'', call_timestamp = ''t1''\<rparr>\<rparr>"
        "\<lparr>call_id = ''o'', call_timestamp = ''t1''\<rparr>"
        "\<lparr>call_id = ''n'', call_timestamp = ''t2''\<rparr>" "[]"]
    onInsert_selection_stable
    [of "\<lparr>calls = [], isLoading = False, errorMessage = None, selectedCall = None\<rparr>"
        "\<lparr>call_id = ''o'', call_timestamp = ''t1''\<rparr>"
        "\<lparr>call_id = ''n'', call_timestamp = ''t2''\<rparr>" "[]"]
  by simp

section \<open>Loading no calls\<close>

lemma uniqueCalls_empty_iff:
  "uniqueCalls callsData = [] \<longleftrightarrow> callsData = None \<or> callsData = Some []"
proof (cases callsData)
  case None
  then show ?thesis by (simp add: uniqueCalls_def)
next
  case (Some rows)
  show ?thesis
  proof (cases rows)
    case Nil
    with Some show ?thesis by (simp add: uniqueCalls_def)
  next
    case (Cons c cs)
    have "uniqueCalls (Some (c # cs)) = c # keepFirst {call_timestamp c} cs"
      by (simp add: uniqueCalls_keepFirst)
    with Some Cons show ?thesis by simp
  qed
qed

text \<open>
  Claim C10. A load that succeeds with no calls (an empty or null row list) empties the
  call list and leaves the selected call as it was; a load that returns rows selects the
  first row; and whenever a load changes the selection, it succeeded with a non-empty
  deduplicated list.
\<close>

theorem fetchCallerData_empty_keeps_selection:
  "(error reply = None \<and> (data reply = Some [] \<or> data reply = None) \<longrightarrow>
       selectedCall (fetchCallerData reply s) = selectedCall s
       \<and> calls (fetchCallerData reply s) = []
       \<and> errorMessage (fetchCallerData reply s) = None
       \<and> isLoading (fetchCallerData reply s) = False)
   \<and> (error reply = None \<and> data reply = Some (c # rows) \<longrightarrow>
       selectedCall (fetchCallerData reply s) = Some c)
   \<and> (selectedCall (fetchCallerData reply s) \<noteq> selectedCall s \<longrightarrow>
       error reply = None \<and> uniqueCalls (data reply) \<noteq> [])"
proof (intro conjI impI)
  assume a: "error reply = None \<and> (data reply = Some [] \<or> data reply = None)"
  then have u: "uniqueCalls (data reply) = []" by (auto simp: uniqueCalls_empty_iff)
  from a u show "selectedCall (fetchCallerData reply s) = selectedCall s"
    by (simp add: fetchCallerData_def)
  from a u show "calls (fetchCallerData reply s) = []"
    by (simp add: fetchCallerData_def)
  from a u show "errorMessage (fetchCallerData reply s) = None"
    by (simp add: fetchCallerData_def)
  from a u show "isLoading (fetchCallerData reply s) = False"
    by (simp add: fetchCallerData_def)
next
  assume a: "error reply = None \<and> data reply = Some (c # rows)"
  then have "uniqueCalls (data reply) = c # keepFirst {call_timestamp c} rows"
    by (simp add: uniqueCalls_keepFirst)
  with a show "selectedCall (fetchCallerData reply s) = Some c"
    by (simp add: fetchCallerData_def)
next
  assume a: "selectedCall (fetchCallerData reply s) \<noteq> selectedCall s"
  show "error reply = None"
  proof (rule ccontr)
    assume "error reply \<noteq> None"
    then obtain m where "error reply = Some m" by auto
    then have "selectedCall (fetchCallerData reply s) = selectedCall s"
      by (simp add: fetchCallerData_def)
    with a show False by simp
  qed
  show "uniqueCalls (data reply) \<noteq> []"
  proof
    assume "uniqueCalls (data reply) = []"
    then have "selectedCall (fetchCallerData reply s) = selectedCall s"
      by (cases "error reply") (simp_all add: fetchCallerData_def)
    with a show False by simp
  qed
qed

theorem fetchCallerData_empty_keeps_selection_witness:
  "selectedCall (fetchCallerData (Response (Some []) None)
      \<lparr>calls = [\<lparr>call_id = ''o'', call_timestamp = ''t1''\<rparr>], isLoading = False,
       errorMessage = None, selectedCall = Some \<lparr>call_id = ''o'', call_timestamp = ''t1''\<rparr>\<rparr>)
     = Some \<lparr>call_id = ''o'', call_timestamp = ''t1''\<rparr>
   \<and> calls (fetchCallerData (Response (Some []) None)
      \<lparr>calls = [\<lparr>call_id = ''o'', call_timestamp = ''t1''\<rparr>], isLoading = False,
       errorMessage = None, selectedCall = Some \<lparr>call_id = ''o'', call_timestamp = ''t1''\<rparr>\<rparr>)
     = []
   \<and> selectedCall (fetchCallerData
        (Response (Some [\<lparr>call_id = ''p'', call_timestamp = ''t3''\<rparr>,
                         \<lparr>call_id = ''q'', call_timestamp = ''t2''\<rparr>]) None)
      \<lparr>calls = [\<lparr>call_id = ''o'', call_timestamp = ''t1''\<rparr>], isLoading = False,
       errorMessage = None, selectedCall = Some \<lparr>call_id = ''o'', call_timestamp = ''t1''\<rparr>\<rparr>)
     = Some \<lparr>call_id = ''p'', call_timestamp = ''t3''\<rparr>"
  using fetchCallerData_empty_keeps_selection
    [where reply = "Response (Some []) None"
       and c = "\<lparr>call_id = ''p'', call_timestamp = ''t3''\<rparr>" and rows = "[]"
       and s = "\<lparr>calls = [\<lparr>call_id = ''o'', call_timestamp = ''t1''\<rparr>], isLoading = False,
          errorMessage = None, selectedCall = Some \<lparr>call_id = ''o'', call_timestamp = ''t1''\<rparr>\<rparr>"]
    fetchCallerData_empty_keeps_selection
    [where reply = "Response (Some [\<lparr>call_id = ''p'', call_timestamp = ''t3''\<rparr>,
                         \<lparr>call_id = ''q'', call_timestamp = ''t2''\<rparr>]) None"
       and c = "\<lparr>call_id = ''p'', call_timestamp = ''t3''\<rparr>"
       and rows = "[\<lparr>call_id = ''q'', call_timestamp = ''t2''\<rparr>]"
       and s = "\<lparr>calls = [\<lparr>call_id = ''o'', call_timestamp = ''t1''\<rparr>], isLoading = False,
          errorMessage = None, selectedCall = Some \<lparr>call_id = ''o'', call_timestamp = ''t1''\<rparr>\<rparr>"]
  by simp

section \<open>Sorting the callers\<close>

lemma set_insertSorted: "set (insertSorted cmp x xs) = insert x (set xs)"
  by (induction xs) auto

lemma set_stableSort: "set (stableSort cmp xs) = set xs"
  by (induction xs) (auto simp: set_insertSorted)

lemma mset_insertSorted: "mset (insertSorted cmp x xs) = add_mset x (mset xs)"
  by (induction xs) auto

lemma mset_stableSort: "mset (stableSort cmp xs) = mset xs"
  by (induction xs) (auto simp: mset_insertSorted)

lemma insertSorted_insort_key:
  "(\<And>y. y \<in> set xs \<Longrightarrow> (cmp x y \<le> 0) = (k x \<le> k y)) \<Longrightarrow>
     insertSorted cmp x xs = insort_key k x xs"
  by (induction xs) auto

lemma stableSort_sort_key:
  "(\<And>x y. x \<in> set xs \<Longrightarrow> y \<in> set xs \<Longrightarrow> (cmp x y \<le> 0) = (k x \<le> k y)) \<Longrightarrow>
     stableSort cmp xs = sort_key k xs"
proof (induction xs)
  case Nil
  show ?case by simp
next
  case (Cons x xs)
  have tail: "stableSort cmp xs = sort_key k xs"
    by (rule Cons.IH) (simp add: Cons.prems)
  have "insertSorted cmp x (sort_key k xs) = insort_key k x (sort_key k xs)"
    by (rule insertSorted_insort_key) (simp add: Cons.prems)
  with tail show ?case by simp
qed

lemma consistent_by_key:
  fixes k :: "'a \<Rightarrow> int"
  assumes "\<And>a b. a \<in> set xs \<Longrightarrow> b \<in> set xs \<Longrightarrow> comparefn a b = Some (k a - k b)"
  shows "consistentComparator comparefn xs"
  unfolding consistentComparator_def list_all_iff
proof (intro ballI)
  fix a b c assume "a \<in> set xs" "b \<in> set xs" "c \<in> set xs"
  then have "comparefn a a = Some (k a - k a)" "comparefn a b = Some (k a - k b)"
    "comparefn b a = Some (k b - k a)" "comparefn b c = Some (k b - k c)"
    "comparefn a c = Some (k a - k c)"
    by (simp_all only: assms)
  then show "case (comparefn a a, comparefn a b, comparefn b a, comparefn b c, comparefn a c) of
      (Some aa, Some ab, Some ba, Some bc, Some ac) \<Rightarrow>
        aa = 0 \<and> (ab = 0 \<longrightarrow> ba = 0) \<and> (ab = 0 \<and> bc = 0 \<longrightarrow> ac = 0)
        \<and> (ab < 0 \<and> bc < 0 \<longrightarrow> ac < 0) \<and> (ab > 0 \<and> bc > 0 \<longrightarrow> ac > 0)
    | _ \<Rightarrow> False"
    by simp
qed

lemma arraySort_by_key:
  fixes k :: "'a \<Rightarrow> int"
  assumes "\<And>a b. a \<in> set xs \<Longrightarrow> b \<in> set xs \<Longrightarrow> comparefn a b = Some (k a - k b)"
  shows "arraySort engine comparefn xs = sort_key k xs"
proof -
  have "consistentComparator comparefn xs"
    using assms by (rule consistent_by_key)
  then have "arraySort engine comparefn xs = stableSort (sortCompare comparefn) xs"
    by (simp add: arraySort_def)
  also have "\<dots> = sort_key k xs"
    by (rule stableSort_sort_key) (simp add: sortCompare_def assms)
  finally show ?thesis .
qed

lemma mset_arraySort: "mset (arraySort engine comparefn xs) = mset xs"
  using runEngine [of engine] by (simp add: arraySort_def mset_stableSort)

lemma urgencyKey_urgencyOrder:
  "urgencyKey c = urgencyOrder (case urgency_level c of Some l \<Rightarrow> l | None \<Rightarrow> LOW)"
  by (simp add: urgencyKey_def split: option.split UrgencyLevel.split)

lemma sortCallers_urgency_asc:
  "sortCallers engine getTime cs urgency asc = sort_key urgencyKey cs"
  unfolding sortCallers_def
  by (rule arraySort_by_key) (simp add: compareCallers_def urgencyKey_urgencyOrder)

lemma sortCallers_urgency_desc:
  "sortCallers engine getTime cs urgency desc = sort_key (\<lambda>c. - urgencyKey c) cs"
  unfolding sortCallers_def
  by (rule arraySort_by_key) (simp add: compareCallers_def urgencyKey_urgencyOrder)

lemma sortCallers_lastCall_asc:
  assumes "\<And>c. c \<in> set cs \<Longrightarrow> getTime (last_call_timestamp c) \<noteq> None"
  shows "sortCallers engine getTime cs lastCall asc = sort_key (lastCallKey getTime) cs"
  unfolding sortCallers_def
proof (rule arraySort_by_key)
  fix x y assume "x \<in> set cs" "y \<in> set cs"
  then obtain tx ty where "getTime (last_call_timestamp x) = Some tx"
      "getTime (last_call_timestamp y) = Some ty"
    using assms by blast
  then show "compareCallers getTime lastCall asc x y
             = Some (lastCallKey getTime x - lastCallKey getTime y)"
    by (simp add: compareCallers_def lastCallKey_def)
qed

lemma sortCallers_lastCall_desc:
  assumes "\<And>c. c \<in> set cs \<Longrightarrow> getTime (last_call_timestamp c) \<noteq> None"
  shows "sortCallers engine getTime cs lastCall desc = sort_key (\<lambda>c. - lastCallKey getTime c) cs"
  unfolding sortCallers_def
proof (rule arraySort_by_key)
  fix x y assume "x \<in> set cs" "y \<in> set cs"
  then obtain tx ty where "getTime (last_call_timestamp x) = Some tx"
      "getTime (last_call_timestamp y) = Some ty"
    using assms by blast
  then show "compareCallers getTime lastCall desc x y
             = Some (- lastCallKey getTime x - - lastCallKey getTime y)"
    by (simp add: compareCallers_def lastCallKey_def)
qed

lemma unparsable_not_consistent:
  assumes "c \<in> set cs" "getTime (last_call_timestamp c) = None"
  shows "\<not> consistentComparator (compareCallers getTime lastCall order) cs"
proof
  assume "consistentComparator (compareCallers getTime lastCall order) cs"
  with assms(1) have "compareCallers getTime lastCall order c c \<noteq> None"
    unfolding consistentComparator_def list_all_iff
    by (auto split: option.splits)
  with assms(2) show False
    by (simp add: compareCallers_def)
qed

lemma sortCallers_unparsable:
  assumes "c \<in> set cs" "getTime (last_call_timestamp c) = None"
  shows "sortCallers engine getTime cs lastCall order
         = runEngine engine (sortCompare (compareCallers getTime lastCall order)) cs"
  using unparsable_not_consistent [of c cs getTime order, OF assms]
  by (simp add: sortCallers_def arraySort_def)

lemma sorted_wrt_sort_key_asc: "sorted_wrt (\<lambda>a b. k a \<le> k b) (sort_key k xs)"
  using sorted_sort_key [of k xs] by (simp add: sorted_map)

lemma sorted_wrt_sort_key_desc:
  fixes k :: "'a \<Rightarrow> int"
  shows "sorted_wrt (\<lambda>a b. k b \<le> k a) (sort_key (\<lambda>c. - k c) xs)"
  using sorted_sort_key [of "\<lambda>c. - k c" xs] by (simp add: sorted_map)

lemma mset_sortCallers: "mset (sortCallers engine getTime cs field order) = mset cs"
  by (simp add: sortCallers_def mset_arraySort)


text \<open>
  The engine at work on a comparator that is not consistent: the first two rows are a
  descending run and are reversed, the unparsable row compares \<open>0\<close> with the row in the
  middle of the front and goes last, and the newest row is searched to the very front.
\<close>

lemma runInsertionEngine_unparsable_example:
  "map phone_number
     (sortCallers runInsertionEngine
       (\<lambda>s. if s = ''2025-03-01T09:00:00+00:00'' then Some 1740819600000
        else if s = ''2025-03-02T09:00:00+00:00'' then Some 1740906000000
        else if s = ''2025-03-04T09:00:00+00:00'' then Some 1741078800000 else None)
       [\<lparr>phone_number = ''1'', name = None, last_call_timestamp = ''2025-03-01T09:00:00+00:00'',
         urgency_level = None, last_source = None\<rparr>,
        \<lparr>phone_number = ''2'', name = None, last_call_timestamp = ''2025-03-02T09:00:00+00:00'',
         urgency_level = None, last_source = None\<rparr>,
        \<lparr>phone_number = ''3'', name = None, last_call_timestamp = ''not a date'',
         urgency_level = None, last_source = None\<rparr>,
        \<lparr>phone_number = ''4'', name = None, last_call_timestamp = ''2025-03-04T09:00:00+00:00'',
         urgency_level = None, last_source = None\<rparr>] lastCall desc)
   = [''4'', ''2'', ''1'', ''3'']"
  by (simp add: sortCallers_def arraySort_def consistentComparator_def
      runInsertionEngine.rep_eq runInsertionSort_def countAndMakeRun_def insertPivot_def
      findInsertionPoint.simps sortCompare_def compareCallers_def)

text \<open>
  Claim C2, as amended. Sorting returns a permutation of the callers. By the urgency key
  the result is ordered by LOW = 1, MEDIUM = 2, IMMINENT = 3 with a missing level counted
  as LOW, ascending or descending as chosen, and it is the stable sort by that key. By the
  last-call key the result is in chronological order, ascending or descending as chosen,
  when every timestamp parses; when some timestamp does not parse, the comparator returns
  NaN, and the result is whatever order the engine's sort gives for a comparator it reads
  as \<open>0\<close> there. For the two callers of the scenario, urgency descending gives phone 2 then
  phone 1, and last call descending gives phone 1 then phone 2.
\<close>

theorem sortCallers_orders_by_key:
  "mset (sortCallers engine getTime cs field order) = mset cs
   \<and> sorted_wrt (\<lambda>a b. urgencyKey a \<le> urgencyKey b) (sortCallers engine getTime cs urgency asc)
   \<and> sorted_wrt (\<lambda>a b. urgencyKey b \<le> urgencyKey a) (sortCallers engine getTime cs urgency desc)
   \<and> sortCallers engine getTime cs urgency asc = sort_key urgencyKey cs
   \<and> sortCallers engine getTime cs urgency desc = sort_key (\<lambda>c. - urgencyKey c) cs
   \<and> ((\<forall>c \<in> set cs. getTime (last_call_timestamp c) \<noteq> None) \<longrightarrow>
        sorted_wrt (\<lambda>a b. lastCallKey getTime a \<le> lastCallKey getTime b)
          (sortCallers engine getTime cs lastCall asc)
        \<and> sorted_wrt (\<lambda>a b. lastCallKey getTime b \<le> lastCallKey getTime a)
          (sortCallers engine getTime cs lastCall desc))
   \<and> ((\<exists>c \<in> set cs. getTime (last_call_timestamp c) = None) \<longrightarrow>
        sortCallers engine getTime cs lastCall order
        = runEngine engine (sortCompare (compareCallers getTime lastCall order)) cs)
   \<and> sortCallers engine getTime
        [\<lparr>phone_number = ''1'', name = None, last_call_timestamp = ''2025-03-02T09:00:00+00:00'',
          urgency_level = Some MEDIUM, last_source = None\<rparr>,
         \<lparr>phone_number = ''2'', name = None, last_call_timestamp = ''2025-03-01T09:00:00+00:00'',
          urgency_level = Some IMMINENT, last_source = None\<rparr>] urgency desc
       = [\<lparr>phone_number = ''2'', name = None, last_call_timestamp = ''2025-03-01T09:00:00+00:00'',
           urgency_level = Some IMMINENT, last_source = None\<rparr>,
          \<lparr>phone_number = ''1'', name = None, last_call_timestamp = ''2025-03-02T09:00:00+00:00'',
           urgency_level = Some MEDIUM, last_source = None\<rparr>]
   \<and> (getTime ''2025-03-01T09:00:00+00:00'' = Some dayOne
        \<and> getTime ''2025-03-02T09:00:00+00:00'' = Some dayTwo \<and> dayOne < dayTwo \<longrightarrow>
        sortCallers engine getTime
          [\<lparr>phone_number = ''1'', name = None, last_call_timestamp = ''2025-03-02T09:00:00+00:00'',
            urgency_level = Some MEDIUM, last_source = None\<rparr>,
           \<lparr>phone_number = ''2'', name = None, last_call_timestamp = ''2025-03-01T09:00:00+00:00'',
            urgency_level = Some IMMINENT, last_source = None\<rparr>] lastCall desc
        = [\<lparr>phone_number = ''1'', name = None, last_call_timestamp = ''2025-03-02T09:00:00+00:00'',
            urgency_level = Some MEDIUM, last_source = None\<rparr>,
           \<lparr>phone_number = ''2'', name = None, last_call_timestamp = ''2025-03-01T09:00:00+00:00'',
            urgency_level = Some IMMINENT, last_source = None\<rparr>])"
proof (intro conjI impI)
  show "mset (sortCallers engine getTime cs field order) = mset cs"
    by (rule mset_sortCallers)
  show "sorted_wrt (\<lambda>a b. urgencyKey a \<le> urgencyKey b) (sortCallers engine getTime cs urgency asc)"
    unfolding sortCallers_urgency_asc by (rule sorted_wrt_sort_key_asc)
  show "sorted_wrt (\<lambda>a b. urgencyKey b \<le> urgencyKey a) (sortCallers engine getTime cs urgency desc)"
    unfolding sortCallers_urgency_desc by (rule sorted_wrt_sort_key_desc)
  show "sortCallers engine getTime cs urgency asc = sort_key urgencyKey cs"
    by (rule sortCallers_urgency_asc)
  show "sortCallers engine getTime cs urgency desc = sort_key (\<lambda>c. - urgencyKey c) cs"
    by (rule sortCallers_urgency_desc)
next
  assume valid: "\<forall>c \<in> set cs. getTime (last_call_timestamp c) \<noteq> None"
  then have eq_asc: "sortCallers engine getTime cs lastCall asc = sort_key (lastCallKey getTime) cs"
    by (intro sortCallers_lastCall_asc) blast
  show "sorted_wrt (\<lambda>a b. lastCallKey getTime a \<le> lastCallKey getTime b)
          (sortCallers engine getTime cs lastCall asc)"
    unfolding eq_asc by (rule sorted_wrt_sort_key_asc)
  from valid
  have eq_desc: "sortCallers engine getTime cs lastCall desc = sort_key (\<lambda>c. - lastCallKey getTime c) cs"
    by (intro sortCallers_lastCall_desc) blast
  show "sorted_wrt (\<lambda>a b. lastCallKey getTime b \<le> lastCallKey getTime a)
          (sortCallers engine getTime cs lastCall desc)"
    unfolding eq_desc by (rule sorted_wrt_sort_key_desc)
next
  assume "\<exists>c \<in> set cs. getTime (last_call_timestamp c) = None"
  then obtain c where "c \<in> set cs" "getTime (last_call_timestamp c) = None"
    by blast
  then show "sortCallers engine getTime cs lastCall order
        = runEngine engine (sortCompare (compareCallers getTime lastCall order)) cs"
    by (rule sortCallers_unparsable)
next
  show "sortCallers engine getTime
        [\<lparr>phone_number = ''1'', name = None, last_call_timestamp = ''2025-03-02T09:00:00+00:00'',
          urgency_level = Some MEDIUM, last_source = None\<rparr>,
         \<lparr>phone_number = ''2'', name = None, last_call_timestamp = ''2025-03-01T09:00:00+00:00'',
          urgency_level = Some IMMINENT, last_source = None\<rparr>] urgency desc
       = [\<lparr>phone_number = ''2'', name = None, last_call_timestamp = ''2025-03-01T09:00:00+00:00'',
           urgency_level = Some IMMINENT, last_source = None\<rparr>,
          \<lparr>phone_number = ''1'', name = None, last_call_timestamp = ''2025-03-02T09:00:00+00:00'',
           urgency_level = Some MEDIUM, last_source = None\<rparr>]"
    by (simp add: sortCallers_urgency_desc urgencyKey_def)
next
  assume times: "getTime ''2025-03-01T09:00:00+00:00'' = Some dayOne
        \<and> getTime ''2025-03-02T09:00:00+00:00'' = Some dayTwo \<and> dayOne < dayTwo"
  let ?cs = "[\<lparr>phone_number = ''1'', name = None, last_call_timestamp = ''2025-03-02T09:00:00+00:00'',
            urgency_level = Some MEDIUM, last_source = None\<rparr>,
           \<lparr>phone_number = ''2'', name = None, last_call_timestamp = ''2025-03-01T09:00:00+00:00'',
            urgency_level = Some IMMINENT, last_source = None\<rparr>]"
  have "sortCallers engine getTime ?cs lastCall desc = sort_key (\<lambda>c. - lastCallKey getTime c) ?cs"
    using times by (intro sortCallers_lastCall_desc) auto
  with times show "sortCallers engine getTime
          [\<lparr>phone_number = ''1'', name = None, last_call_timestamp = ''2025-03-02T09:00:00+00:00'',
            urgency_level = Some MEDIUM, last_source = None\<rparr>,
           \<lparr>phone_number = ''2'', name = None, last_call_timestamp = ''2025-03-01T09:00:00+00:00'',
            urgency_level = Some IMMINENT, last_source = None\<rparr>] lastCall desc
        = [\<lparr>phone_number = ''1'', name = None, last_call_timestamp = ''2025-03-02T09:00:00+00:00'',
            urgency_level = Some MEDIUM, last_source = None\<rparr>,
           \<lparr>phone_number = ''2'', name = None, last_call_timestamp = ''2025-03-01T09:00:00+00:00'',
            urgency_level = Some IMMINENT, last_source = None\<rparr>]"
    by (simp add: lastCallKey_def)
qed

theorem sortCallers_orders_by_key_witness:
  "sortCallers runInsertionEngine
     (\<lambda>s. if s = ''2025-03-01T09:00:00+00:00'' then Some 1740819600000
          else if s = ''2025-03-02T09:00:00+00:00'' then Some 1740906000000 else None)
     [\<lparr>phone_number = ''1'', name = None, last_call_timestamp = ''2025-03-02T09:00:00+00:00'',
       urgency_level = Some MEDIUM, last_source = None\<rparr>,
      \<lparr>phone_number = ''2'', name = None, last_call_timestamp = ''2025-03-01T09:00:00+00:00'',
       urgency_level = Some IMMINENT, last_source = None\<rparr>] lastCall desc
   = [\<lparr>phone_number = ''1'', name = None, last_call_timestamp = ''2025-03-02T09:00:00+00:00'',
       urgency_level = Some MEDIUM, last_source = None\<rparr>,
      \<lparr>phone_number = ''2'', name = None, last_call_timestamp = ''2025-03-01T09:00:00+00:00'',
       urgency_level = Some IMMINENT, last_source = None\<rparr>]
   \<and> sorted_wrt (\<lambda>a b.
         lastCallKey (\<lambda>s. if s = ''2025-03-01T09:00:00+00:00'' then Some 1740819600000
          else if s = ''2025-03-02T09:00:00+00:00'' then Some 1740906000000 else None) a
         \<le> lastCallKey (\<lambda>s. if s = ''2025-03-01T09:00:00+00:00'' then Some 1740819600000
          else if s = ''2025-03-02T09:00:00+00:00'' then Some 1740906000000 else None) b)
       (sortCallers runInsertionEngine
         (\<lambda>s. if s = ''2025-03-01T09:00:00+00:00'' then Some 1740819600000
          else if s = ''2025-03-02T09:00:00+00:00'' then Some 1740906000000 else None)
         [\<lparr>phone_number = ''1'', name = None, last_call_timestamp = ''2025-03-02T09:00:00+00:00'',
           urgency_level = Some MEDIUM, last_source = None\<rparr>,
          \<lparr>phone_number = ''2'', name = None, last_call_timestamp = ''2025-03-01T09:00:00+00:00'',
           urgency_level = Some IMMINENT, last_source = None\<rparr>] lastCall asc)"
  using sortCallers_orders_by_key
    [where engine = runInsertionEngine and getTime = "\<lambda>s. if s = ''2025-03-01T09:00:00+00:00'' then Some 1740819600000
          else if s = ''2025-03-02T09:00:00+00:00'' then Some 1740906000000 else None"
       and dayOne = 1740819600000 and dayTwo = 1740906000000
       and cs = "[\<lparr>phone_number = ''1'', name = None, last_call_timestamp = ''2025-03-02T09:00:00+00:00'',
           urgency_level = Some MEDIUM, last_source = None\<rparr>,
          \<lparr>phone_number = ''2'', name = None, last_call_timestamp = ''2025-03-01T09:00:00+00:00'',
           urgency_level = Some IMMINENT, last_source = None\<rparr>]"]
  by simp

text \<open>
  The claim as written, for every list of callers, fails when a last-call timestamp does
  not parse. With the callers of 1 March, of an unparsable date and of 3 March, every
  comparison with the middle row is NaN, so V8 takes the whole array for one run and
  returns it as it is: sorted descending, 1 March stays in front of 3 March.
\<close>

theorem sortCallers_unparsable_counterexample:
  "sortCallers runInsertionEngine
       (\<lambda>s. if s = ''2025-03-01T09:00:00+00:00'' then Some 1740819600000
          else if s = ''2025-03-03T09:00:00+00:00'' then Some 1740992400000 else None)
       [\<lparr>phone_number = ''1'', name = None, last_call_timestamp = ''2025-03-01T09:00:00+00:00'',
        urgency_level = Some LOW, last_source = None\<rparr>,
        \<lparr>phone_number = ''2'', name = None, last_call_timestamp = ''not a date'',
        urgency_level = Some LOW, last_source = None\<rparr>,
        \<lparr>phone_number = ''3'', name = None, last_call_timestamp = ''2025-03-03T09:00:00+00:00'',
        urgency_level = Some LOW, last_source = None\<rparr>] lastCall desc
   = [\<lparr>phone_number = ''1'', name = None, last_call_timestamp = ''2025-03-01T09:00:00+00:00'',
        urgency_level = Some LOW, last_source = None\<rparr>,
      \<lparr>phone_number = ''2'', name = None, last_call_timestamp = ''not a date'',
        urgency_level = Some LOW, last_source = None\<rparr>,
      \<lparr>phone_number = ''3'', name = None, last_call_timestamp = ''2025-03-03T09:00:00+00:00'',
        urgency_level = Some LOW, last_source = None\<rparr>]
   \<and> \<not> sorted_wrt
        (\<lambda>a b. lastCallKey (\<lambda>s. if s = ''2025-03-01T09:00:00+00:00'' then Some 1740819600000
          else if s = ''2025-03-03T09:00:00+00:00'' then Some 1740992400000 else None) b
             \<le> lastCallKey (\<lambda>s. if s = ''2025-03-01T09:00:00+00:00'' then Some 1740819600000
          else if s = ''2025-03-03T09:00:00+00:00'' then Some 1740992400000 else None) a)
        (filter (\<lambda>c. (\<lambda>s. if s = ''2025-03-01T09:00:00+00:00'' then Some 1740819600000
          else if s = ''2025-03-03T09:00:00+00:00'' then Some 1740992400000 else None) (last_call_timestamp c) \<noteq> None)
          (sortCallers runInsertionEngine
       (\<lambda>s. if s = ''2025-03-01T09:00:00+00:00'' then Some 1740819600000
          else if s = ''2025-03-03T09:00:00+00:00'' then Some 1740992400000 else None)
       [\<lparr>phone_number = ''1'', name = None, last_call_timestamp = ''2025-03-01T09:00:00+00:00'',
        urgency_level = Some LOW, last_source = None\<rparr>,
        \<lparr>phone_number = ''2'', name = None, last_call_timestamp = ''not a date'',
        urgency_level = Some LOW, last_source = None\<rparr>,
        \<lparr>phone_number = ''3'', name = None, last_call_timestamp = ''2025-03-03T09:00:00+00:00'',
        urgency_level = Some LOW, last_source = None\<rparr>] lastCall desc))"
proof -
  let ?g = "(\<lambda>s. if s = ''2025-03-01T09:00:00+00:00'' then Some 1740819600000
          else if s = ''2025-03-03T09:00:00+00:00'' then Some 1740992400000 else None)"
  let ?cs = "[\<lparr>phone_number = ''1'', name = None, last_call_timestamp = ''2025-03-01T09:00:00+00:00'',
        urgency_level = Some LOW, last_source = None\<rparr>,
        \<lparr>phone_number = ''2'', name = None, last_call_timestamp = ''not a date'',
        urgency_level = Some LOW, last_source = None\<rparr>,
        \<lparr>phone_number = ''3'', name = None, last_call_timestamp = ''2025-03-03T09:00:00+00:00'',
        urgency_level = Some LOW, last_source = None\<rparr>]"
  have "sortCallers runInsertionEngine ?g ?cs lastCall desc
        = runEngine runInsertionEngine (sortCompare (compareCallers ?g lastCall desc)) ?cs"
    by (rule sortCallers_unparsable [where c = "?cs ! 1"]) simp_all
  also have "\<dots> = ?cs"
    by (simp add: runInsertionEngine.rep_eq runInsertionSort_def countAndMakeRun_def
        sortCompare_def compareCallers_def)
  finally have result: "sortCallers runInsertionEngine ?g ?cs lastCall desc = ?cs" .
  show ?thesis
    unfolding result by (simp add: lastCallKey_def)
qed

section \<open>Toggling the sort order\<close>

lemma sorted_by_distinct_key_unique:
  fixes k :: "'a \<Rightarrow> int"
  assumes dist: "distinct (map k xs)"
    and perm: "mset ys = mset xs"
    and sorted_ys: "sorted (map k ys)"
  shows "ys = sort_key k xs"
proof -
  have set_eq: "set ys = set xs"
    using perm by (rule mset_eq_setD)
  have "mset (map k ys) = mset (map k xs)"
    using perm by simp
  from mset_eq_imp_distinct_iff [OF this]
  have dist_ys: "distinct (map k ys)"
    using dist by blast
  have dist_sorted: "distinct (map k (sort_key k xs))"
    using dist by (simp add: distinct_map)
  have "set (map k ys) = set (map k (sort_key k xs))"
    using set_eq by simp
  then have keys: "map k ys = map k (sort_key k xs)"
    using sorted_ys dist_ys dist_sorted sorted_sort_key [of k xs]
    by (intro sorted_distinct_set_unique) simp_all
  have "inj_on k (set xs)"
    using dist by (simp add: distinct_map)
  then have "inj_on k (set ys \<union> set (sort_key k xs))"
    using set_eq by simp
  with keys show ?thesis
    by (simp add: inj_on_map_eq_map)
qed

lemma distinct_map_uminus:
  fixes k :: "'a \<Rightarrow> int"
  shows "distinct (map (\<lambda>c. - k c) xs) = distinct (map k xs)"
proof -
  have "map (\<lambda>c. - k c) xs = map uminus (map k xs)" by simp
  then show ?thesis by (simp only: distinct_map) (auto intro: inj_onI)
qed

lemma rev_sort_desc:
  fixes k :: "'a \<Rightarrow> int"
  assumes "distinct (map k xs)"
  shows "rev (sort_key (\<lambda>c. - k c) xs) = sort_key k xs"
proof (rule sorted_by_distinct_key_unique [OF assms])
  show "mset (rev (sort_key (\<lambda>c. - k c) xs)) = mset xs" by simp
  have "sorted_wrt (\<lambda>a b. k a \<le> k b) (rev (sort_key (\<lambda>c. - k c) xs))"
    unfolding sorted_wrt_rev by (rule sorted_wrt_sort_key_desc)
  then show "sorted (map k (rev (sort_key (\<lambda>c. - k c) xs)))"
    by (simp only: sorted_map)
qed

lemma sort_key_permuted:
  fixes k :: "'a \<Rightarrow> int"
  assumes "distinct (map k xs)" "mset ys = mset xs"
  shows "sort_key k ys = sort_key k xs"
  by (rule sorted_by_distinct_key_unique [OF assms(1)]) (simp_all add: assms(2))

lemma handleSort_same:
  "sortField s = field \<Longrightarrow>
     handleSort field s = s\<lparr>sortOrder := (if sortOrder s = asc then desc else asc)\<rparr>"
  by (simp add: handleSort_def)

lemma handleSort_twice: "sortField s = field \<Longrightarrow> handleSort field (handleSort field s) = s"
  by (cases "sortOrder s") (simp_all add: handleSort_def)

text \<open>
  Claim C7. When the mapped urgency keys of the callers are pairwise distinct, sorting by
  urgency descending and then ascending gives exactly the reverse of the descending
  order (which is also the ascending sort of the original list), and sorting descending
  again gives back the descending order. Selecting the active sort key flips the order,
  so selecting it twice restores the state; selecting the other key makes it the active
  key with the order descending.
\<close>

theorem sortCallers_toggle_reverses:
  "(distinct (map urgencyKey cs) \<longrightarrow>
      sortCallers engine getTime (sortCallers engine getTime cs urgency desc) urgency asc
        = rev (sortCallers engine getTime cs urgency desc)
      \<and> sortCallers engine getTime cs urgency asc = rev (sortCallers engine getTime cs urgency desc)
      \<and> sortCallers engine getTime (sortCallers engine getTime (sortCallers engine getTime cs urgency desc) urgency asc)
           urgency desc
        = sortCallers engine getTime cs urgency desc)
   \<and> (sortField s = field \<longrightarrow>
        handleSort field s = s\<lparr>sortOrder := (if sortOrder s = asc then desc else asc)\<rparr>
        \<and> handleSort field (handleSort field s) = s)
   \<and> (sortField s \<noteq> field \<longrightarrow> handleSort field s = s\<lparr>sortField := field, sortOrder := desc\<rparr>)"
proof (intro conjI impI)
  assume dist: "distinct (map urgencyKey cs)"
  have rev_desc: "rev (sort_key (\<lambda>c. - urgencyKey c) cs) = sort_key urgencyKey cs"
    using dist by (rule rev_sort_desc)
  have asc_of_desc: "sort_key urgencyKey (sort_key (\<lambda>c. - urgencyKey c) cs) = sort_key urgencyKey cs"
    using dist by (rule sort_key_permuted) simp
  show "sortCallers engine getTime (sortCallers engine getTime cs urgency desc) urgency asc
        = rev (sortCallers engine getTime cs urgency desc)"
    by (simp only: sortCallers_urgency_asc sortCallers_urgency_desc rev_desc asc_of_desc)
  show "sortCallers engine getTime cs urgency asc = rev (sortCallers engine getTime cs urgency desc)"
    by (simp only: sortCallers_urgency_asc sortCallers_urgency_desc rev_desc)
  have "distinct (map (\<lambda>c. - urgencyKey c) cs)"
    using dist by (simp only: distinct_map_uminus)
  then have "sort_key (\<lambda>c. - urgencyKey c) (sort_key urgencyKey cs) = sort_key (\<lambda>c. - urgencyKey c) cs"
    by (rule sort_key_permuted) simp
  then show "sortCallers engine getTime (sortCallers engine getTime (sortCallers engine getTime cs urgency desc) urgency asc)
           urgency desc
        = sortCallers engine getTime cs urgency desc"
    by (simp only: sortCallers_urgency_asc sortCallers_urgency_desc asc_of_desc)
next
  assume "sortField s = field"
  then show "handleSort field s = s\<lparr>sortOrder := (if sortOrder s = asc then desc else asc)\<rparr>"
    by (rule handleSort_same)
next
  assume "sortField s = field"
  then show "handleSort field (handleSort field s) = s"
    by (rule handleSort_twice)
next
  assume "sortField s \<noteq> field"
  then show "handleSort field s = s\<lparr>sortField := field, sortOrder := desc\<rparr>"
    by (simp add: handleSort_def)
qed

theorem sortCallers_toggle_reverses_witness:
  "sortCallers runInsertionEngine (\<lambda>s. None)
     (sortCallers runInsertionEngine (\<lambda>s. None)
        [\<lparr>phone_number = ''1'', name = None, last_call_timestamp = ''a'',
          urgency_level = Some MEDIUM, last_source = None\<rparr>,
         \<lparr>phone_number = ''2'', name = None, last_call_timestamp = ''b'',
          urgency_level = Some IMMINENT, last_source = None\<rparr>,
         \<lparr>phone_number = ''3'', name = None, last_call_timestamp = ''c'',
          urgency_level = None, last_source = None\<rparr>] urgency desc) urgency asc
   = [\<lparr>phone_number = ''3'', name = None, last_call_timestamp = ''c'',
          urgency_level = None, last_source = None\<rparr>,
      \<lparr>phone_number = ''1'', name = None, last_call_timestamp = ''a'',
          urgency_level = Some MEDIUM, last_source = None\<rparr>,
      \<lparr>phone_number = ''2'', name = None, last_call_timestamp = ''b'',
          urgency_level = Some IMMINENT, last_source = None\<rparr>]
   \<and> handleSort urgency (handleSort urgency
        \<lparr>callers = [], selectedId = None, mounted = True, sortField = urgency,
         sortOrder = desc, filterSource = AllSources\<rparr>)
     = \<lparr>callers = [], selectedId = None, mounted = True, sortField = urgency,
         sortOrder = desc, filterSource = AllSources\<rparr>
   \<and> handleSort urgency
        \<lparr>callers = [], selectedId = None, mounted = True, sortField = lastCall,
         sortOrder = asc, filterSource = AllSources\<rparr>
     = \<lparr>callers = [], selectedId = None, mounted = True, sortField = urgency,
         sortOrder = desc, filterSource = AllSources\<rparr>"
  using sortCallers_toggle_reverses
    [where engine = runInsertionEngine and getTime = "\<lambda>s. None" and field = urgency
       and cs = "[\<lparr>phone_number = ''1'', name = None, last_call_timestamp = ''a'',
          urgency_level = Some MEDIUM, last_source = None\<rparr>,
         \<lparr>phone_number = ''2'', name = None, last_call_timestamp = ''b'',
          urgency_level = Some IMMINENT, last_source = None\<rparr>,
         \<lparr>phone_number = ''3'', name = None, last_call_timestamp = ''c'',
          urgency_level = None, last_source = None\<rparr>]"
       and s = "\<lparr>callers = [], selectedId = None, mounted = True, sortField = urgency,
         sortOrder = desc, filterSource = AllSources\<rparr>"]
    sortCallers_toggle_reverses
    [where engine = runInsertionEngine and getTime = "\<lambda>s. None" and field = urgency and cs = "[]"
       and s = "\<lparr>callers = [], selectedId = None, mounted = True, sortField = lastCall,
         sortOrder = asc, filterSource = AllSources\<rparr>"]
  by (simp add: sortCallers_urgency_asc sortCallers_urgency_desc urgencyKey_def handleSort_def)

section \<open>Filtering, and loading the callers\<close>

lemma fetch_success_state:
  assumes "error callersReply = None"
  shows "callers (nextState (fetchCallersAndScores engine getTime callersReply callsReply s))
         = sortCallers engine getTime
             (map (withScore callsReply) (case data callersReply of Some rows \<Rightarrow> rows | None \<Rightarrow> []))
             (sortField s) (sortOrder s)"
  using assms by (simp add: fetchCallersAndScores_def Let_def)

lemma fetch_keeps_filter:
  "filterSource (nextState (fetchCallersAndScores engine getTime callersReply callsReply s)) = filterSource s"
  by (cases "error callersReply") (simp_all add: fetchCallersAndScores_def Let_def)

text \<open>
  Claim C6. The rendered rows are the state's callers through the active tab's filter.
  On the tab "All" they are exactly the callers; on the phone tab they are exactly the
  callers whose last source is \<open>Phone\<close>, on the chat tab exactly those whose last source
  is \<open>Chatbot\<close>. The rendered rows are a subsequence of the callers, so any order the
  callers are sorted in is kept, and after a load they are the filter of the sorted list.
\<close>

theorem visibleCallers_filter:
  "(filterSource s = AllSources \<longrightarrow> visibleCallers s = callers s)
   \<and> (filterSource s = PhoneCall \<longrightarrow>
        set (visibleCallers s) = {c \<in> set (callers s). last_source c = Some ''Phone''})
   \<and> (filterSource s = Chatbot \<longrightarrow>
        set (visibleCallers s) = {c \<in> set (callers s). last_source c = Some ''Chatbot''})
   \<and> subseq (visibleCallers s) (callers s)
   \<and> (sorted_wrt before (callers s) \<longrightarrow> sorted_wrt before (visibleCallers s))
   \<and> (error callersReply = None \<and> data callersReply = Some rows \<longrightarrow>
        visibleCallers (nextState (fetchCallersAndScores engine getTime callersReply callsReply s))
        = filter (matchesFilter (filterSource s))
            (sortCallers engine getTime (map (withScore callsReply) rows) (sortField s) (sortOrder s)))"
proof (intro conjI impI)
  assume "filterSource s = AllSources"
  then show "visibleCallers s = callers s"
    by (simp add: visibleCallers_def matchesFilter_def)
next
  assume "filterSource s = PhoneCall"
  then show "set (visibleCallers s) = {c \<in> set (callers s). last_source c = Some ''Phone''}"
    by (simp add: visibleCallers_def matchesFilter_def)
next
  assume "filterSource s = Chatbot"
  then show "set (visibleCallers s) = {c \<in> set (callers s). last_source c = Some ''Chatbot''}"
    by (simp add: visibleCallers_def matchesFilter_def)
next
  show "subseq (visibleCallers s) (callers s)"
    by (simp add: visibleCallers_def)
next
  assume "sorted_wrt before (callers s)"
  then show "sorted_wrt before (visibleCallers s)"
    unfolding visibleCallers_def by (rule sorted_wrt_filter)
next
  assume "error callersReply = None \<and> data callersReply = Some rows"
  then show "visibleCallers (nextState (fetchCallersAndScores engine getTime callersReply callsReply s))
        = filter (matchesFilter (filterSource s))
            (sortCallers engine getTime (map (withScore callsReply) rows) (sortField s) (sortOrder s))"
    by (simp add: visibleCallers_def fetch_keeps_filter fetch_success_state)
qed

theorem visibleCallers_filter_witness:
  "visibleCallers
     \<lparr>callers = [\<lparr>phone_number = ''2'', name = None, last_call_timestamp = ''b'',
                   urgency_level = Some IMMINENT, last_source = Some ''Chatbot''\<rparr>,
                  \<lparr>phone_number = ''1'', name = None, last_call_timestamp = ''a'',
                   urgency_level = Some MEDIUM, last_source = Some ''Phone''\<rparr>,
                  \<lparr>phone_number = ''3'', name = None, last_call_timestamp = ''c'',
                   urgency_level = None, last_source = None\<rparr>],
      selectedId = None, mounted = True, sortField = urgency, sortOrder = desc,
      filterSource = AllSources\<rparr>
   = [\<lparr>phone_number = ''2'', name = None, last_call_timestamp = ''b'',
        urgency_level = Some IMMINENT, last_source = Some ''Chatbot''\<rparr>,
      \<lparr>phone_number = ''1'', name = None, last_call_timestamp = ''a'',
        urgency_level = Some MEDIUM, last_source = Some ''Phone''\<rparr>,
      \<lparr>phone_number = ''3'', name = None, last_call_timestamp = ''c'',
        urgency_level = None, last_source = None\<rparr>]
   \<and> set (visibleCallers
     \<lparr>callers = [\<lparr>phone_number = ''2'', name = None, last_call_timestamp = ''b'',
                   urgency_level = Some IMMINENT, last_source = Some ''Chatbot''\<rparr>,
                  \<lparr>phone_number = ''1'', name = None, last_call_timestamp = ''a'',
                   urgency_level = Some MEDIUM, last_source = Some ''Phone''\<rparr>,
                  \<lparr>phone_number = ''3'', name = None, last_call_timestamp = ''c'',
                   urgency_level = None, last_source = None\<rparr>],
      selectedId = None, mounted = True, sortField = urgency, sortOrder = desc,
      filterSource = PhoneCall\<rparr>)
   = {\<lparr>phone_number = ''1'', name = None, last_call_timestamp = ''a'',
        urgency_level = Some MEDIUM, last_source = Some ''Phone''\<rparr>}"
  using visibleCallers_filter
    [where s = "\<lparr>callers = [\<lparr>phone_number = ''2'', name = None, last_call_timestamp = ''b'',
                   urgency_level = Some IMMINENT, last_source = Some ''Chatbot''\<rparr>,
                  \<lparr>phone_number = ''1'', name = None, last_call_timestamp = ''a'',
                   urgency_level = Some MEDIUM, last_source = Some ''Phone''\<rparr>,
                  \<lparr>phone_number = ''3'', name = None, last_call_timestamp = ''c'',
                   urgency_level = None, last_source = None\<rparr>],
      selectedId = None, mounted = True, sortField = urgency, sortOrder = desc,
      filterSource = AllSources\<rparr>"]
    visibleCallers_filter
    [where s = "\<lparr>callers = [\<lparr>phone_number = ''2'', name = None, last_call_timestamp = ''b'',
                   urgency_level = Some IMMINENT, last_source = Some ''Chatbot''\<rparr>,
                  \<lparr>phone_number = ''1'', name = None, last_call_timestamp = ''a'',
                   urgency_level = Some MEDIUM, last_source = Some ''Phone''\<rparr>,
                  \<lparr>phone_number = ''3'', name = None, last_call_timestamp = ''c'',
                   urgency_level = None, last_source = None\<rparr>],
      selectedId = None, mounted = True, sortField = urgency, sortOrder = desc,
      filterSource = PhoneCall\<rparr>"]
  by auto

lemma withScore_failed:
  "callsReply (phone_number c) = Response None failure \<Longrightarrow>
     withScore callsReply c
     = \<lparr>phone_number = phone_number c, name = name c,
         last_call_timestamp = last_call_timestamp c,
         urgency_level = None, last_source = None\<rparr>"
  by (simp add: withScore_def)

lemma withScore_found:
  "callsReply (phone_number c) = Response (Some (row # rest)) failure \<Longrightarrow>
     withScore callsReply c
     = \<lparr>phone_number = phone_number c, name = name c,
         last_call_timestamp = last_call_timestamp c,
         urgency_level = score_row.urgency_level row,
         last_source = (if source row = Some [] then None else source row)\<rparr>"
  by (simp add: withScore_def split: option.split)

lemma withScore_phone_number: "phone_number (withScore callsReply c) = phone_number c"
  by (simp add: withScore_def Let_def)

lemma withScore_in_result:
  assumes "error callersReply = None" "data callersReply = Some rows" "c \<in> set rows"
  shows "withScore callsReply c
         \<in> set (callers (nextState (fetchCallersAndScores engine getTime callersReply callsReply s)))"
proof -
  have "set (callers (nextState (fetchCallersAndScores engine getTime callersReply callsReply s)))
        = set (map (withScore callsReply) rows)"
    using assms(1,2) mset_eq_setD [OF mset_sortCallers]
    by (simp add: fetch_success_state)
  with assms(3) show ?thesis by simp
qed

text \<open>
  Claim C8. When the callers query succeeds, the new caller list holds every fetched
  caller exactly once, whatever the replies of the per-caller queries. A caller whose
  query failed is in the list with no urgency level and no source; a caller whose query
  returned a row is in the list with that row's urgency level and source (an empty
  source string counting as none).
\<close>

theorem fetchCallersAndScores_isolates_lookup_failure:
  "error callersReply = None \<and> data callersReply = Some rows \<longrightarrow>
     mset (callers (nextState (fetchCallersAndScores engine getTime callersReply callsReply s)))
       = mset (map (withScore callsReply) rows)
     \<and> mset (map phone_number (callers (nextState (fetchCallersAndScores engine getTime callersReply callsReply s))))
       = mset (map phone_number rows)
     \<and> (\<forall>c \<in> set rows. \<forall>failure.
           callsReply (phone_number c) = Response None (Some failure) \<longrightarrow>
             \<lparr>phone_number = phone_number c, name = name c,
              last_call_timestamp = last_call_timestamp c,
              urgency_level = None, last_source = None\<rparr>
             \<in> set (callers (nextState (fetchCallersAndScores engine getTime callersReply callsReply s))))
     \<and> (\<forall>c \<in> set rows. \<forall>row rest.
           callsReply (phone_number c) = Response (Some (row # rest)) None \<longrightarrow>
             \<lparr>phone_number = phone_number c, name = name c,
              last_call_timestamp = last_call_timestamp c,
              urgency_level = score_row.urgency_level row,
              last_source = (if source row = Some [] then None else source row)\<rparr>
             \<in> set (callers (nextState (fetchCallersAndScores engine getTime callersReply callsReply s))))"
proof (intro impI conjI ballI allI)
  assume ok: "error callersReply = None \<and> data callersReply = Some rows"
  then show all: "mset (callers (nextState (fetchCallersAndScores engine getTime callersReply callsReply s)))
       = mset (map (withScore callsReply) rows)"
    by (simp add: fetch_success_state mset_sortCallers)
  have "mset (map phone_number (callers (nextState (fetchCallersAndScores engine getTime callersReply callsReply s))))
        = mset (map phone_number (map (withScore callsReply) rows))"
    by (simp only: mset_map all)
  also have "map phone_number (map (withScore callsReply) rows) = map phone_number rows"
    by (simp add: withScore_phone_number)
  finally show "mset (map phone_number (callers (nextState (fetchCallersAndScores engine getTime callersReply callsReply s))))
       = mset (map phone_number rows)" .
next
  fix c failure
  assume ok: "error callersReply = None \<and> data callersReply = Some rows"
    and c: "c \<in> set rows"
    and failed: "callsReply (phone_number c) = Response None (Some failure)"
  from ok c have "withScore callsReply c
      \<in> set (callers (nextState (fetchCallersAndScores engine getTime callersReply callsReply s)))"
    by (intro withScore_in_result) simp_all
  then show "\<lparr>phone_number = phone_number c, name = name c,
              last_call_timestamp = last_call_timestamp c,
              urgency_level = None, last_source = None\<rparr>
             \<in> set (callers (nextState (fetchCallersAndScores engine getTime callersReply callsReply s)))"
    by (simp only: withScore_failed [of callsReply c, OF failed])
next
  fix c row rest
  assume ok: "error callersReply = None \<and> data callersReply = Some rows"
    and c: "c \<in> set rows"
    and found: "callsReply (phone_number c) = Response (Some (row # rest)) None"
  from ok c have "withScore callsReply c
      \<in> set (callers (nextState (fetchCallersAndScores engine getTime callersReply callsReply s)))"
    by (intro withScore_in_result) simp_all
  then show "\<lparr>phone_number = phone_number c, name = name c,
              last_call_timestamp = last_call_timestamp c,
              urgency_level = score_row.urgency_level row,
              last_source = (if source row = Some [] then None else source row)\<rparr>
             \<in> set (callers (nextState (fetchCallersAndScores engine getTime callersReply callsReply s)))"
    by (simp only: withScore_found [of callsReply c, OF found])
qed

theorem fetchCallersAndScores_isolates_lookup_failure_witness:
  "\<lparr>phone_number = ''1'', name = Some ''Ada'', last_call_timestamp = ''2025-03-02T09:00:00+00:00'',
        urgency_level = None, last_source = None\<rparr>
     \<in> set (callers (nextState (fetchCallersAndScores runInsertionEngine (\<lambda>t. None)
       (Response (Some [\<lparr>phone_number = ''1'', name = Some ''Ada'', last_call_timestamp = ''2025-03-02T09:00:00+00:00''\<rparr>,
                        \<lparr>phone_number = ''2'', name = None, last_call_timestamp = ''2025-03-01T09:00:00+00:00''\<rparr>]) None)
       (\<lambda>p. if p = ''1'' then Response None (Some ''timeout'')
          else Response (Some [\<lparr>score_row.urgency_level = Some IMMINENT, source = Some ''Chatbot''\<rparr>]) None)
       \<lparr>callers = [], selectedId = None, mounted = True, sortField = urgency,
        sortOrder = desc, filterSource = AllSources\<rparr>)))
   \<and> \<lparr>phone_number = ''2'', name = None, last_call_timestamp = ''2025-03-01T09:00:00+00:00'',
        urgency_level = Some IMMINENT, last_source = Some ''Chatbot''\<rparr>
     \<in> set (callers (nextState (fetchCallersAndScores runInsertionEngine (\<lambda>t. None)
       (Response (Some [\<lparr>phone_number = ''1'', name = Some ''Ada'', last_call_timestamp = ''2025-03-02T09:00:00+00:00''\<rparr>,
                        \<lparr>phone_number = ''2'', name = None, last_call_timestamp = ''2025-03-01T09:00:00+00:00''\<rparr>]) None)
       (\<lambda>p. if p = ''1'' then Response None (Some ''timeout'')
          else Response (Some [\<lparr>score_row.urgency_level = Some IMMINENT, source = Some ''Chatbot''\<rparr>]) None)
       \<lparr>callers = [], selectedId = None, mounted = True, sortField = urgency,
        sortOrder = desc, filterSource = AllSources\<rparr>)))
   \<and> length (callers (nextState (fetchCallersAndScores runInsertionEngine (\<lambda>t. None)
       (Response (Some [\<lparr>phone_number = ''1'', name = Some ''Ada'', last_call_timestamp = ''2025-03-02T09:00:00+00:00''\<rparr>,
                        \<lparr>phone_number = ''2'', name = None, last_call_timestamp = ''2025-03-01T09:00:00+00:00''\<rparr>]) None)
       (\<lambda>p. if p = ''1'' then Response None (Some ''timeout'')
          else Response (Some [\<lparr>score_row.urgency_level = Some IMMINENT, source = Some ''Chatbot''\<rparr>]) None)
       \<lparr>callers = [], selectedId = None, mounted = True, sortField = urgency,
        sortOrder = desc, filterSource = AllSources\<rparr>))) = 2"
proof -
  let ?a = "\<lparr>phone_number = ''1'', name = Some ''Ada'', last_call_timestamp = ''2025-03-02T09:00:00+00:00''\<rparr>"
  let ?b = "\<lparr>phone_number = ''2'', name = None, last_call_timestamp = ''2025-03-01T09:00:00+00:00''\<rparr>"
  let ?row = "\<lparr>score_row.urgency_level = Some IMMINENT, source = Some ''Chatbot''\<rparr>"
  let ?reply = "(\<lambda>p. if p = ''1'' then Response None (Some ''timeout'')
          else Response (Some [\<lparr>score_row.urgency_level = Some IMMINENT, source = Some ''Chatbot''\<rparr>]) None)"
  let ?callers = "Response (Some [?a, ?b]) None"
  let ?s = "\<lparr>callers = [], selectedId = None, mounted = True, sortField = urgency,
        sortOrder = desc, filterSource = AllSources\<rparr>"
  have ok: "error ?callers = None \<and> data ?callers = Some [?a, ?b]"
    by simp
  note facts = fetchCallersAndScores_isolates_lookup_failure
    [where engine = runInsertionEngine and getTime = "\<lambda>t. None" and callersReply = ?callers and rows = "[?a, ?b]"
       and callsReply = ?reply and s = ?s, THEN mp, OF ok]
  have a: "?a \<in> set [?a, ?b]" and b: "?b \<in> set [?a, ?b]"
    by simp_all
  have failed: "?reply (phone_number ?a) = Response None (Some ''timeout'')"
    by simp
  have found: "?reply (phone_number ?b) = Response (Some [?row]) None"
    by simp
  note all = facts [THEN conjunct1]
  note lost = facts [THEN conjunct2, THEN conjunct2, THEN conjunct1, THEN bspec, OF a,
      THEN spec, of "''timeout''", THEN mp, OF failed]
  note kept = facts [THEN conjunct2, THEN conjunct2, THEN conjunct2, THEN bspec, OF b,
      THEN spec, of ?row, THEN spec, of "[]", THEN mp, OF found]
  from mset_eq_length [OF all] have len:
    "length (callers (nextState (fetchCallersAndScores runInsertionEngine (\<lambda>t. None) ?callers ?reply ?s))) = 2"
    by simp
  from lost kept len show ?thesis
    by simp
qed

text \<open>
  Claim C9. When the callers query fails, the run logs the error and does nothing else:
  the state, and with it the caller list, is unchanged and no caller is passed to
  \<open>onSelect\<close>.
\<close>

theorem fetchCallersAndScores_error_keeps_state:
  "error callersReply = Some callersError \<longrightarrow>
     nextState (fetchCallersAndScores engine getTime callersReply callsReply s) = s
     \<and> callers (nextState (fetchCallersAndScores engine getTime callersReply callsReply s)) = callers s
     \<and> logged (fetchCallersAndScores engine getTime callersReply callsReply s)
         = [(''Error fetching callers:'', callersError)]
     \<and> selected (fetchCallersAndScores engine getTime callersReply callsReply s) = []"
  by (simp add: fetchCallersAndScores_def)


theorem fetchCallersAndScores_error_keeps_state_witness:
  "nextState (fetchCallersAndScores runInsertionEngine (\<lambda>t. None) (Response None (Some ''network''))
       (\<lambda>p. Response None None)
       \<lparr>callers = [\<lparr>phone_number = ''2'', name = None, last_call_timestamp = ''2025-03-01T09:00:00+00:00'',
        urgency_level = Some IMMINENT, last_source = Some ''Chatbot''\<rparr>],
        selectedId = Some ''2'', mounted = True, sortField = urgency,
        sortOrder = desc, filterSource = AllSources\<rparr>)
   = \<lparr>callers = [\<lparr>phone_number = ''2'', name = None, last_call_timestamp = ''2025-03-01T09:00:00+00:00'',
        urgency_level = Some IMMINENT, last_source = Some ''Chatbot''\<rparr>],
        selectedId = Some ''2'', mounted = True, sortField = urgency,
        sortOrder = desc, filterSource = AllSources\<rparr>
   \<and> selected (fetchCallersAndScores runInsertionEngine (\<lambda>t. None) (Response None (Some ''network''))
       (\<lambda>p. Response None None)
       \<lparr>callers = [\<lparr>phone_number = ''2'', name = None, last_call_timestamp = ''2025-03-01T09:00:00+00:00'',
        urgency_level = Some IMMINENT, last_source = Some ''Chatbot''\<rparr>],
        selectedId = Some ''2'', mounted = True, sortField = urgency,
        sortOrder = desc, filterSource = AllSources\<rparr>) = []
   \<and> logged (fetchCallersAndScores runInsertionEngine (\<lambda>t. None) (Response None (Some ''network''))
       (\<lambda>p. Response None None)
       \<lparr>callers = [\<lparr>phone_number = ''2'', name = None, last_call_timestamp = ''2025-03-01T09:00:00+00:00'',
        urgency_level = Some IMMINENT, last_source = Some ''Chatbot''\<rparr>],
        selectedId = Some ''2'', mounted = True, sortField = urgency,
        sortOrder = desc, filterSource = AllSources\<rparr>)
     = [(''Error fetching callers:'', ''network'')]"
  using fetchCallersAndScores_error_keeps_state
    [where engine = runInsertionEngine and getTime = "\<lambda>t. None" and callersReply = "Response None (Some ''network'')"
       and callersError = "''network''" and callsReply = "\<lambda>p. Response None None"
       and s = "\<lparr>callers = [\<lparr>phone_number = ''2'', name = None, last_call_timestamp = ''2025-03-01T09:00:00+00:00'',
        urgency_level = Some IMMINENT, last_source = Some ''Chatbot''\<rparr>],
        selectedId = Some ''2'', mounted = True, sortField = urgency,
        sortOrder = desc, filterSource = AllSources\<rparr>"]
  by simp

section \<open>Key-question extraction\<close>

lemma keyQuestions_nonempty: "q \<in> set keyQuestions \<Longrightarrow> q \<noteq> []"
  by (auto simp: keyQuestions_def)

lemma matchingQuestion_Some:
  assumes "matchingQuestion line = Some q"
  shows "q \<in> set keyQuestions" and "asks line q"
proof -
  from assms have ai: "startsWith line ''AI:''"
    by (simp add: matchingQuestion_def split: if_splits)
  with assms have found: "find (\<lambda>q. includesStr (trim (replaceFirst line ''AI:'' [])) q) keyQuestions = Some q"
    by (simp add: matchingQuestion_def)
  then obtain k where "k < length keyQuestions" "q = keyQuestions ! k"
      "includesStr (trim (replaceFirst line ''AI:'' [])) q"
    unfolding find_Some_iff by blast
  with ai show "q \<in> set keyQuestions" and "asks line q"
    by (simp_all add: asks_def)
qed

lemma matchingQuestion_None:
  assumes "matchingQuestion line = None" "q \<in> set keyQuestions"
  shows "\<not> asks line q"
proof
  assume "asks line q"
  then have ai: "startsWith line ''AI:''"
    and inc: "includesStr (trim (replaceFirst line ''AI:'' [])) q"
    by (simp_all add: asks_def)
  from assms(1) ai
  have "find (\<lambda>q. includesStr (trim (replaceFirst line ''AI:'' [])) q) keyQuestions = None"
    by (simp add: matchingQuestion_def)
  with assms(2) inc show False
    by (simp add: find_None_iff)
qed

lemma firstForQuestion_iff:
  "firstForQuestion lines i \<longleftrightarrow>
     (\<exists>q. matchingQuestion (lines ! i) = Some q
          \<and> q \<notin> {q. \<exists>j<i. matchingQuestion (lines ! j) = Some q})"
  by (cases "matchingQuestion (lines ! i)")
     (auto simp: firstForQuestion_def list_all_iff)

lemma scanLine_filteredLines:
  assumes "foundQuestions st = {q. \<exists>j<i. matchingQuestion (lines ! j) = Some q}"
  shows "filteredLines (scanLine lines i st)
         = filteredLines st
           @ (if firstForQuestion lines i then lines ! i # userReply lines i else [])"
proof (cases "matchingQuestion (lines ! i)")
  case None
  then show ?thesis
    by (simp add: scanLine_def firstForQuestion_def)
next
  case (Some q)
  then have nonempty: "q \<noteq> []"
    by (intro keyQuestions_nonempty matchingQuestion_Some)
  show ?thesis
  proof (cases "q \<in> foundQuestions st")
    case True
    with Some assms have "\<not> firstForQuestion lines i"
      unfolding firstForQuestion_iff by auto
    with Some True show ?thesis
      by (simp add: scanLine_def)
  next
    case False
    with Some assms have "firstForQuestion lines i"
      unfolding firstForQuestion_iff by auto
    with Some False nonempty show ?thesis
      by (simp add: scanLine_def userReply_def Let_def)
  qed
qed

lemma scanLine_foundQuestions:
  assumes "foundQuestions st = {q. \<exists>j<i. matchingQuestion (lines ! j) = Some q}"
  shows "foundQuestions (scanLine lines i st)
         = {q. \<exists>j<Suc i. matchingQuestion (lines ! j) = Some q}"
proof (cases "matchingQuestion (lines ! i)")
  case None
  then have "foundQuestions (scanLine lines i st) = foundQuestions st"
    by (simp add: scanLine_def)
  also have "\<dots> = {q. \<exists>j<Suc i. matchingQuestion (lines ! j) = Some q}"
    unfolding assms using None by (auto simp: less_Suc_eq)
  finally show ?thesis .
next
  case (Some q)
  then have nonempty: "q \<noteq> []"
    by (intro keyQuestions_nonempty matchingQuestion_Some)
  have "foundQuestions (scanLine lines i st) = insert q (foundQuestions st)"
    using Some nonempty by (auto simp: scanLine_def Let_def)
  also have "\<dots> = {q. \<exists>j<Suc i. matchingQuestion (lines ! j) = Some q}"
    unfolding assms using Some by (auto simp: less_Suc_eq)
  finally show ?thesis .
qed

lemma scanFrom_filteredLines:
  assumes "foundQuestions st = {q. \<exists>j<i. matchingQuestion (lines ! j) = Some q}"
  shows "filteredLines (scanFrom lines i st)
         = filteredLines st
           @ concat (map (\<lambda>i. if firstForQuestion lines i then lines ! i # userReply lines i else [])
                       [i..<length lines])"
  using assms
proof (induction lines i st rule: scanFrom.induct)
  case (1 lines i st)
  show ?case
  proof (cases "i < length lines")
    case False
    then show ?thesis by (subst scanFrom.simps) simp
  next
    case True
    have found: "foundQuestions (scanLine lines i st)
                 = {q. \<exists>j<i + 1. matchingQuestion (lines ! j) = Some q}"
      using scanLine_foundQuestions [OF "1.prems"] by simp
    have "filteredLines (scanFrom lines i st)
          = filteredLines (scanFrom lines (i + 1) (scanLine lines i st))"
      using True by (subst scanFrom.simps) simp
    also have "\<dots> = filteredLines (scanLine lines i st)
           @ concat (map (\<lambda>i. if firstForQuestion lines i then lines ! i # userReply lines i else [])
                       [i + 1..<length lines])"
      by (rule "1.IH" [OF True found])
    finally show ?thesis
      using True by (simp add: scanLine_filteredLines [OF "1.prems"] upt_conv_Cons)
  qed
qed

lemma filterKeyQuestions_extracted:
  "filterKeyQuestions transcript = joinLines (extracted (splitLines transcript))"
proof -
  let ?start = "\<lparr>filteredLines = [], foundQuestions = {}\<rparr>"
  have "foundQuestions ?start
        = {q. \<exists>j<0. matchingQuestion (splitLines transcript ! j) = Some q}"
    by simp
  then have "filteredLines (scanFrom (splitLines transcript) 0 ?start)
             = filteredLines ?start @ extracted (splitLines transcript)"
    unfolding extracted_def by (rule scanFrom_filteredLines)
  then show ?thesis
    by (simp add: filterKeyQuestions_def)
qed

lemma oneQuestion_matching:
  assumes one: "length (filter (asks line) keyQuestions) \<le> 1"
  shows "matchingQuestion line = Some q \<longleftrightarrow> q \<in> set keyQuestions \<and> asks line q"
proof
  assume "matchingQuestion line = Some q"
  then show "q \<in> set keyQuestions \<and> asks line q"
    by (simp add: matchingQuestion_Some)
next
  assume q: "q \<in> set keyQuestions \<and> asks line q"
  then obtain q' where m: "matchingQuestion line = Some q'"
    using matchingQuestion_None [of line q] by (cases "matchingQuestion line") auto
  then have q': "q' \<in> set keyQuestions" "asks line q'"
    by (simp_all add: matchingQuestion_Some)
  from q q' have "q \<in> set (filter (asks line) keyQuestions)"
    and "q' \<in> set (filter (asks line) keyQuestions)"
    by simp_all
  moreover from one obtain x where "set (filter (asks line) keyQuestions) \<subseteq> {x}"
    by (cases "filter (asks line) keyQuestions") auto
  ultimately have "q' = q" by blast
  with m show "matchingQuestion line = Some q" by simp
qed

lemma oneQuestion_first:
  assumes one: "oneQuestionPerLine lines" and i: "i < length lines"
  shows "firstForQuestion lines i \<longleftrightarrow> list_ex (\<lambda>q. firstOccurrence lines q i) keyQuestions"
proof -
  have eq: "matchingQuestion (lines ! j) = Some q \<longleftrightarrow> q \<in> set keyQuestions \<and> asks (lines ! j) q"
    if "j \<le> i" for j q
  proof (rule oneQuestion_matching)
    from that i have "lines ! j \<in> set lines" by simp
    with one show "length (filter (asks (lines ! j)) keyQuestions) \<le> 1"
      by (simp add: oneQuestionPerLine_def list_all_iff)
  qed
  have "firstForQuestion lines i \<longleftrightarrow>
        (\<exists>q. matchingQuestion (lines ! i) = Some q
             \<and> (\<forall>j<i. matchingQuestion (lines ! j) \<noteq> Some q))"
    unfolding firstForQuestion_iff by auto
  also have "\<dots> \<longleftrightarrow> (\<exists>q \<in> set keyQuestions. asks (lines ! i) q \<and> (\<forall>j<i. \<not> asks (lines ! j) q))"
    using eq by (metis less_imp_le_nat order_refl)
  also have "\<dots> \<longleftrightarrow> list_ex (\<lambda>q. firstOccurrence lines q i) keyQuestions"
    by (auto simp: list_ex_iff firstOccurrence_def list_all_iff)
  finally show ?thesis .
qed

lemma oneQuestion_extracted:
  assumes "oneQuestionPerLine lines"
  shows "extracted lines = specExtracted lines"
proof -
  have "map (\<lambda>i. if firstForQuestion lines i then lines ! i # userReply lines i else [])
            [0..<length lines]
        = map (\<lambda>i. if list_ex (\<lambda>q. firstOccurrence lines q i) keyQuestions
                     then lines ! i # userReply lines i else [])
            [0..<length lines]"
    by (rule map_cong [OF refl]) (simp add: oneQuestion_first [OF assms])
  then show ?thesis
    by (simp only: extracted_def specExtracted_def)
qed


text \<open>
  Claim C1, as amended. Key-question extraction gives every AI line one question at most:
  the first canonical question, in list order, that its message contains. A line is
  emitted when no earlier line was given the same question, followed by the next line when
  that one is a user line; every other line is dropped, and the emitted lines stay in
  transcript order. On a transcript whose AI lines contain at most one canonical question
  each, this is the extraction the specification describes: for each canonical question
  the first AI line containing it, with the user line after it. On the scenario
  transcript the result is the first AI/User pair, and a question that is later in the
  list but earlier in the transcript comes out first.
\<close>

theorem filterKeyQuestions_first_per_question:
  "filterKeyQuestions transcript = joinLines (extracted (splitLines transcript))
   \<and> (oneQuestionPerLine (splitLines transcript) \<longrightarrow>
        filterKeyQuestions transcript = joinLines (specExtracted (splitLines transcript)))
   \<and> filterKeyQuestions
        ''AI: How are you feeling?\<newline>User: Okay I guess\<newline>AI: unrelated\<newline>AI: How are you feeling?\<newline>User: still okay''
     = ''AI: How are you feeling?\<newline>User: Okay I guess''
   \<and> filterKeyQuestions ''AI: Do you need urgent help?\<newline>User: no\<newline>AI: How are you feeling?''
     = ''AI: Do you need urgent help?\<newline>User: no\<newline>AI: How are you feeling?''"
proof (intro conjI impI)
  show "filterKeyQuestions transcript = joinLines (extracted (splitLines transcript))"
    by (rule filterKeyQuestions_extracted)
next
  assume "oneQuestionPerLine (splitLines transcript)"
  then have "extracted (splitLines transcript) = specExtracted (splitLines transcript)"
    by (rule oneQuestion_extracted)
  then show "filterKeyQuestions transcript = joinLines (specExtracted (splitLines transcript))"
    by (simp only: filterKeyQuestions_extracted)
next
  show "filterKeyQuestions
        ''AI: How are you feeling?\<newline>User: Okay I guess\<newline>AI: unrelated\<newline>AI: How are you feeling?\<newline>User: still okay''
     = ''AI: How are you feeling?\<newline>User: Okay I guess''"
    by code_simp
next
  show "filterKeyQuestions ''AI: Do you need urgent help?\<newline>User: no\<newline>AI: How are you feeling?''
     = ''AI: Do you need urgent help?\<newline>User: no\<newline>AI: How are you feeling?''"
    by code_simp
qed

theorem filterKeyQuestions_first_per_question_witness:
  "oneQuestionPerLine (splitLines
      ''AI: How are you feeling?\<newline>User: Okay I guess\<newline>AI: unrelated\<newline>AI: How are you feeling?\<newline>User: still okay'')
   \<and> filterKeyQuestions
        ''AI: How are you feeling?\<newline>User: Okay I guess\<newline>AI: unrelated\<newline>AI: How are you feeling?\<newline>User: still okay''
     = joinLines (specExtracted (splitLines
        ''AI: How are you feeling?\<newline>User: Okay I guess\<newline>AI: unrelated\<newline>AI: How are you feeling?\<newline>User: still okay''))
   \<and> joinLines (specExtracted (splitLines
        ''AI: How are you feeling?\<newline>User: Okay I guess\<newline>AI: unrelated\<newline>AI: How are you feeling?\<newline>User: still okay''))
     = ''AI: How are you feeling?\<newline>User: Okay I guess''"
proof -
  let ?t = "''AI: How are you feeling?\<newline>User: Okay I guess\<newline>AI: unrelated\<newline>AI: How are you feeling?\<newline>User: still okay''"
  have one: "oneQuestionPerLine (splitLines ?t)"
    by code_simp
  have val: "joinLines (specExtracted (splitLines ?t)) = ''AI: How are you feeling?\<newline>User: Okay I guess''"
    by code_simp
  note filterKeyQuestions_first_per_question
    [of ?t, THEN conjunct2, THEN conjunct1, THEN mp, OF one]
  with one val show ?thesis
    by (intro conjI)
qed

text \<open>
  The claim as written fails on an AI line that contains two canonical questions, since
  only the first of them in list order is looked at. In the first transcript the second
  line is the first occurrence of "Do you need urgent help?", yet it is dropped, because
  it also contains the question already found. In the second transcript the second line
  is a repeat occurrence of "Do you need urgent help?", yet it is emitted, because the
  first line was counted for "How are you feeling?" only.
\<close>

theorem filterKeyQuestions_two_questions_counterexample:
  "filterKeyQuestions ''AI: How are you feeling?\<newline>AI: How are you feeling? Do you need urgent help?''
     \<noteq> joinLines (specExtracted (splitLines
         ''AI: How are you feeling?\<newline>AI: How are you feeling? Do you need urgent help?''))
   \<and> filterKeyQuestions ''AI: How are you feeling?\<newline>AI: How are you feeling? Do you need urgent help?''
     = ''AI: How are you feeling?''
   \<and> joinLines (specExtracted (splitLines
         ''AI: How are you feeling?\<newline>AI: How are you feeling? Do you need urgent help?''))
     = ''AI: How are you feeling?\<newline>AI: How are you feeling? Do you need urgent help?''
   \<and> filterKeyQuestions ''AI: How are you feeling? Do you need urgent help?\<newline>AI: Do you need urgent help?''
     = ''AI: How are you feeling? Do you need urgent help?\<newline>AI: Do you need urgent help?''
   \<and> joinLines (specExtracted (splitLines
         ''AI: How are you feeling? Do you need urgent help?\<newline>AI: Do you need urgent help?''))
     = ''AI: How are you feeling? Do you need urgent help?''"
proof -
  have code: "filterKeyQuestions ''AI: How are you feeling?\<newline>AI: How are you feeling? Do you need urgent help?''
     = ''AI: How are you feeling?''"
    by code_simp
  have spec: "joinLines (specExtracted (splitLines
         ''AI: How are you feeling?\<newline>AI: How are you feeling? Do you need urgent help?''))
     = ''AI: How are you feeling?\<newline>AI: How are you feeling? Do you need urgent help?''"
    by code_simp
  have code2: "filterKeyQuestions ''AI: How are you feeling? Do you need urgent help?\<newline>AI: Do you need urgent help?''
     = ''AI: How are you feeling? Do you need urgent help?\<newline>AI: Do you need urgent help?''"
    by code_simp
  have spec2: "joinLines (specExtracted (splitLines
         ''AI: How are you feeling? Do you need urgent help?\<newline>AI: Do you need urgent help?''))
     = ''AI: How are you feeling? Do you need urgent help?''"
    by code_simp
  have "filterKeyQuestions ''AI: How are you feeling?\<newline>AI: How are you feeling? Do you need urgent help?''
     \<noteq> joinLines (specExtracted (splitLines
         ''AI: How are you feeling?\<newline>AI: How are you feeling? Do you need urgent help?''))"
    unfolding code spec by simp
  with code spec code2 spec2 show ?thesis
    by (intro conjI)
qed

end
